theory Spec2Isabelle
  imports Main "HOL-Library.Word"
begin

section \<open>A 32-bit register machine: data model\<close>

text \<open>
  The development embeds \<^verbatim>\<open>cpu.c\<close>. Conventions of the embedding:
  \<^item> \<^verbatim>\<open>int32_t\<close> values are \<open>32 word\<close>; addition, subtraction and multiplication wrap
    (two's complement), comparisons read them with \<open>sint\<close>;
  \<^item> the buffer behind \<^verbatim>\<open>cpu->memory\<close> is a list of cells; the pointers
    \<^verbatim>\<open>stack_bottom\<close> and \<^verbatim>\<open>stack_top\<close> are cell indices relative to
    \<^verbatim>\<open>cpu->memory\<close>, and \<^verbatim>\<open>NULL\<close> is \<open>None\<close>;
  \<^item> pointer arithmetic and pointer comparison are integer arithmetic on indices; a read
    or a write of a cell outside the buffer, arithmetic on a \<^verbatim>\<open>NULL\<close> pointer, and a
    division whose quotient is not an \<^verbatim>\<open>int32_t\<close> have no defined result in C (the
    process is killed): the functions return \<open>None\<close> there;
  \<^item> what the C library answers to \<^verbatim>\<open>scanf\<close> and \<^verbatim>\<open>getchar\<close> is an input of
    the step; what \<^verbatim>\<open>printf\<close> and \<^verbatim>\<open>putchar\<close> are asked to write is recorded
    in the field \<open>stdout\<close>.
\<close>

type_synonym int32 = "32 word"
type_synonym size_t = "64 word"
type_synonym byte = "8 word"

datatype cpu_status =
    CPU_OK
  | CPU_HALTED
  | CPU_ILLEGAL_INSTRUCTION
  | CPU_ILLEGAL_OPERAND
  | CPU_INVALID_ADDRESS
  | CPU_INVALID_STACK_OPERATION
  | CPU_DIV_BY_ZERO
  | CPU_IO_ERROR

datatype cpu_register = REGISTER_A | REGISTER_B | REGISTER_C | REGISTER_D

datatype out_event = Printf_d int32 | Putchar int32

record cpu =
  registers :: "cpu_register \<Rightarrow> int32"
  status :: cpu_status
  stack_size :: int32
  instruction_index :: int32
  memory :: "int32 list"
  stack_bottom :: "int option"
  stack_top :: int
  stdout :: "out_event list"

text \<open>The answers of the C library: \<^verbatim>\<open>scanf("%d", &num)\<close> returns \<^verbatim>\<open>EOF\<close>, 0
  (no conversion) or 1 with \<^verbatim>\<open>num\<close> set; \<^verbatim>\<open>getchar()\<close> returns \<^verbatim>\<open>EOF\<close> or a
  byte.\<close>

datatype scanf_result = Scanf_EOF | Scanf_0 | Scanf_1 int32
datatype getchar_result = Getchar_EOF | Getchar_byte byte

record stdin_reply =
  scanf_reply :: scanf_result
  getchar_reply :: getchar_result

definition BLOCK_SIZE :: int where
  "BLOCK_SIZE = 4096"

definition CELL_SIZE :: int where
  "CELL_SIZE = 4"

subsection \<open>Helpers of the handlers\<close>

text \<open>The array \<^verbatim>\<open>registers[4]\<close> is indexed by the enumeration; \<open>reg_index\<close> is the
  enumerator with the given value (used only after \<open>reg_is_valid\<close> has accepted it).\<close>

definition reg_index :: "int32 \<Rightarrow> cpu_register" where
  "reg_index reg =
     (if reg = 0 then REGISTER_A
      else if reg = 1 then REGISTER_B
      else if reg = 2 then REGISTER_C
      else REGISTER_D)"

definition reg_code :: "cpu_register \<Rightarrow> int32" where
  "reg_code r = (case r of REGISTER_A \<Rightarrow> 0 | REGISTER_B \<Rightarrow> 1 | REGISTER_C \<Rightarrow> 2 | REGISTER_D \<Rightarrow> 3)"

definition cpu_clear :: "cpu \<Rightarrow> cpu" where
  "cpu_clear c =
     c\<lparr>registers := (\<lambda>_. 0), status := CPU_OK, stack_size := 0, instruction_index := 0\<rparr>"

definition reg_is_valid :: "cpu \<Rightarrow> int32 \<Rightarrow> bool \<times> cpu" where
  "reg_is_valid c reg =
     (if 0 \<le> sint reg \<and> sint reg \<le> 3 then (True, c)
      else (False, c\<lparr>status := CPU_ILLEGAL_OPERAND\<rparr>))"

definition in_stack :: "cpu \<Rightarrow> int \<Rightarrow> (bool \<times> cpu) option" where
  "in_stack c address =
     (case stack_bottom c of
        None \<Rightarrow> None
      | Some sb \<Rightarrow>
          if address \<ge> sb - sint (stack_size c) + 1 \<and> address \<le> sb then Some (True, c)
          else Some (False, c\<lparr>status := CPU_INVALID_STACK_OPERATION\<rparr>))"

definition handle_eof :: "cpu \<Rightarrow> int32 \<Rightarrow> cpu" where
  "handle_eof c reg =
     (let c1 = c\<lparr>registers := (registers c)(REGISTER_C := 0)\<rparr>;
          c2 = c1\<lparr>registers := (registers c1)(reg_index reg := - 1)\<rparr>
      in c2\<lparr>instruction_index := instruction_index c2 + 1\<rparr>)"

text \<open>\<^verbatim>\<open>cpu->memory[i]\<close> as a read and as a write; \<open>None\<close> outside the buffer.\<close>

definition mem_read :: "cpu \<Rightarrow> int \<Rightarrow> int32 option" where
  "mem_read c i =
     (if 0 \<le> i \<and> i < int (length (memory c)) then Some (memory c ! nat i) else None)"

definition mem_write :: "cpu \<Rightarrow> int \<Rightarrow> int32 \<Rightarrow> cpu option" where
  "mem_write c i v =
     (if 0 \<le> i \<and> i < int (length (memory c)) then Some (c\<lparr>memory := (memory c)[nat i := v]\<rparr>)
      else None)"

text \<open>\<^verbatim>\<open>cpu->memory[++cpu->instruction_index]\<close>: the index is incremented, then the
  cell is read.\<close>

definition next_cell :: "cpu \<Rightarrow> (cpu \<times> int32) option" where
  "next_cell c =
     (let c1 = c\<lparr>instruction_index := instruction_index c + 1\<rparr>
      in case mem_read c1 (sint (instruction_index c1)) of
           None \<Rightarrow> None
         | Some v \<Rightarrow> Some (c1, v))"

text \<open>C's \<^verbatim>\<open>/\<close>: the quotient truncated toward zero. On \<^verbatim>\<open>int32_t\<close> it has no
  defined result for a zero divisor and for \<open>- 2 ^ 31\<close> divided by \<open>- 1\<close>, whose quotient
  \<open>2 ^ 31\<close> is not an \<^verbatim>\<open>int32_t\<close>.\<close>

definition c_quot :: "int \<Rightarrow> int \<Rightarrow> int" where
  "c_quot a b = (if (a < 0) = (b < 0) then \<bar>a\<bar> div \<bar>b\<bar> else - (\<bar>a\<bar> div \<bar>b\<bar>))"

definition div32 :: "int32 \<Rightarrow> int32 \<Rightarrow> int32 option" where
  "div32 a b =
     (if sint b = 0 \<or> (sint a = - (2 ^ 31) \<and> sint b = - 1) then None
      else Some (word_of_int (c_quot (sint a) (sint b))))"

section \<open>The instruction handlers\<close>

definition nop :: "cpu \<Rightarrow> cpu option" where
  "nop c = Some (c\<lparr>instruction_index := instruction_index c + 1\<rparr>)"

definition halt :: "cpu \<Rightarrow> cpu option" where
  "halt c = Some (c\<lparr>status := CPU_HALTED\<rparr>)"

definition add :: "cpu \<Rightarrow> cpu option" where
  "add c =
     (case next_cell c of
        None \<Rightarrow> None
      | Some (c1, reg) \<Rightarrow>
          (case reg_is_valid c1 reg of
             (False, c2) \<Rightarrow> Some c2
           | (True, c2) \<Rightarrow>
               Some (c2\<lparr>registers := (registers c2)
                          (REGISTER_A := registers c2 REGISTER_A + registers c2 (reg_index reg)),
                        instruction_index := instruction_index c2 + 1\<rparr>)))"

definition sub :: "cpu \<Rightarrow> cpu option" where
  "sub c =
     (case next_cell c of
        None \<Rightarrow> None
      | Some (c1, reg) \<Rightarrow>
          (case reg_is_valid c1 reg of
             (False, c2) \<Rightarrow> Some c2
           | (True, c2) \<Rightarrow>
               Some (c2\<lparr>registers := (registers c2)
                          (REGISTER_A := registers c2 REGISTER_A - registers c2 (reg_index reg)),
                        instruction_index := instruction_index c2 + 1\<rparr>)))"

definition mul :: "cpu \<Rightarrow> cpu option" where
  "mul c =
     (case next_cell c of
        None \<Rightarrow> None
      | Some (c1, reg) \<Rightarrow>
          (case reg_is_valid c1 reg of
             (False, c2) \<Rightarrow> Some c2
           | (True, c2) \<Rightarrow>
               Some (c2\<lparr>registers := (registers c2)
                          (REGISTER_A := registers c2 REGISTER_A * registers c2 (reg_index reg)),
                        instruction_index := instruction_index c2 + 1\<rparr>)))"

definition div_reg :: "cpu \<Rightarrow> cpu option" where
  "div_reg c =
     (case next_cell c of
        None \<Rightarrow> None
      | Some (c1, reg) \<Rightarrow>
          (case reg_is_valid c1 reg of
             (False, c2) \<Rightarrow> Some c2
           | (True, c2) \<Rightarrow>
               if registers c2 (reg_index reg) = 0 then Some (c2\<lparr>status := CPU_DIV_BY_ZERO\<rparr>)
               else
                 (case div32 (registers c2 REGISTER_A) (registers c2 (reg_index reg)) of
                    None \<Rightarrow> None
                  | Some q \<Rightarrow>
                      Some (c2\<lparr>registers := (registers c2)(REGISTER_A := q),
                               instruction_index := instruction_index c2 + 1\<rparr>))))"

definition inc :: "cpu \<Rightarrow> cpu option" where
  "inc c =
     (case next_cell c of
        None \<Rightarrow> None
      | Some (c1, reg) \<Rightarrow>
          (case reg_is_valid c1 reg of
             (False, c2) \<Rightarrow> Some c2
           | (True, c2) \<Rightarrow>
               Some (c2\<lparr>registers := (registers c2)
                          (reg_index reg := registers c2 (reg_index reg) + 1),
                        instruction_index := instruction_index c2 + 1\<rparr>)))"

definition dec :: "cpu \<Rightarrow> cpu option" where
  "dec c =
     (case next_cell c of
        None \<Rightarrow> None
      | Some (c1, reg) \<Rightarrow>
          (case reg_is_valid c1 reg of
             (False, c2) \<Rightarrow> Some c2
           | (True, c2) \<Rightarrow>
               Some (c2\<lparr>registers := (registers c2)
                          (reg_index reg := registers c2 (reg_index reg) - 1),
                        instruction_index := instruction_index c2 + 1\<rparr>)))"

text \<open>The target passes through \<^verbatim>\<open>size_t\<close> and back to \<^verbatim>\<open>int32_t\<close>, which gives
  the operand back.\<close>

definition loop :: "cpu \<Rightarrow> cpu option" where
  "loop c =
     (if registers c REGISTER_C = 0 then
        Some (c\<lparr>instruction_index := instruction_index c + 2\<rparr>)
      else
        (case next_cell c of
           None \<Rightarrow> None
         | Some (c1, new_index) \<Rightarrow> Some (c1\<lparr>instruction_index := new_index\<rparr>)))"

definition movr :: "cpu \<Rightarrow> cpu option" where
  "movr c =
     (case next_cell c of
        None \<Rightarrow> None
      | Some (c1, reg) \<Rightarrow>
          (case reg_is_valid c1 reg of
             (False, c2) \<Rightarrow> Some c2
           | (True, c2) \<Rightarrow>
               (case next_cell c2 of
                  None \<Rightarrow> None
                | Some (c3, v) \<Rightarrow>
                    Some (c3\<lparr>registers := (registers c3)(reg_index reg := v),
                             instruction_index := instruction_index c3 + 1\<rparr>))))"

text \<open>The result is the returned flag, the state, and the two out-parameters
  \<^verbatim>\<open>*reg\<close> and \<^verbatim>\<open>*target_address\<close> (a cell index; 0 stands for the unset one).\<close>

definition init_reg_target_address :: "cpu \<Rightarrow> (bool \<times> cpu \<times> int32 \<times> int) option" where
  "init_reg_target_address c =
     (case next_cell c of
        None \<Rightarrow> None
      | Some (c1, reg) \<Rightarrow>
          (case reg_is_valid c1 reg of
             (False, c2) \<Rightarrow> Some (False, c2, reg, 0)
           | (True, c2) \<Rightarrow>
               (case next_cell c2 of
                  None \<Rightarrow> None
                | Some (c3, num) \<Rightarrow>
                    (case stack_bottom c3 of
                       None \<Rightarrow> None
                     | Some sb \<Rightarrow>
                         (let index = registers c3 REGISTER_D + num;
                              target_address = sb - sint (stack_size c3) + sint index + 1
                          in case in_stack c3 target_address of
                               None \<Rightarrow> None
                             | Some (False, c4) \<Rightarrow> Some (False, c4, reg, target_address)
                             | Some (True, c4) \<Rightarrow> Some (True, c4, reg, target_address))))))"

definition load :: "cpu \<Rightarrow> cpu option" where
  "load c =
     (case init_reg_target_address c of
        None \<Rightarrow> None
      | Some (False, c1, reg, target_address) \<Rightarrow> Some c1
      | Some (True, c1, reg, target_address) \<Rightarrow>
          (case mem_read c1 target_address of
             None \<Rightarrow> None
           | Some v \<Rightarrow>
               Some (c1\<lparr>registers := (registers c1)(reg_index reg := v),
                        instruction_index := instruction_index c1 + 1\<rparr>)))"

definition store :: "cpu \<Rightarrow> cpu option" where
  "store c =
     (case init_reg_target_address c of
        None \<Rightarrow> None
      | Some (False, c1, reg, target_address) \<Rightarrow> Some c1
      | Some (True, c1, reg, target_address) \<Rightarrow>
          (case mem_write c1 target_address (registers c1 (reg_index reg)) of
             None \<Rightarrow> None
           | Some c2 \<Rightarrow> Some (c2\<lparr>instruction_index := instruction_index c2 + 1\<rparr>)))"

definition in_reg :: "stdin_reply \<Rightarrow> cpu \<Rightarrow> cpu option" where
  "in_reg io c =
     (case next_cell c of
        None \<Rightarrow> None
      | Some (c1, reg) \<Rightarrow>
          (case reg_is_valid c1 reg of
             (False, c2) \<Rightarrow> Some c2
           | (True, c2) \<Rightarrow>
               (case scanf_reply io of
                  Scanf_0 \<Rightarrow> Some (c2\<lparr>status := CPU_IO_ERROR\<rparr>)
                | Scanf_EOF \<Rightarrow> Some (handle_eof c2 reg)
                | Scanf_1 num \<Rightarrow>
                    Some (c2\<lparr>registers := (registers c2)(reg_index reg := num),
                             instruction_index := instruction_index c2 + 1\<rparr>))))"

definition get :: "stdin_reply \<Rightarrow> cpu \<Rightarrow> cpu option" where
  "get io c =
     (case next_cell c of
        None \<Rightarrow> None
      | Some (c1, reg) \<Rightarrow>
          (case reg_is_valid c1 reg of
             (False, c2) \<Rightarrow> Some c2
           | (True, c2) \<Rightarrow>
               (case getchar_reply io of
                  Getchar_EOF \<Rightarrow> Some (handle_eof c2 reg)
                | Getchar_byte b \<Rightarrow>
                    Some (c2\<lparr>registers := (registers c2)(reg_index reg := ucast b),
                             instruction_index := instruction_index c2 + 1\<rparr>))))"

definition out :: "cpu \<Rightarrow> cpu option" where
  "out c =
     (case next_cell c of
        None \<Rightarrow> None
      | Some (c1, reg) \<Rightarrow>
          (case reg_is_valid c1 reg of
             (False, c2) \<Rightarrow> Some c2
           | (True, c2) \<Rightarrow>
               Some (c2\<lparr>stdout := stdout c2 @ [Printf_d (registers c2 (reg_index reg))],
                        instruction_index := instruction_index c2 + 1\<rparr>)))"

definition put :: "cpu \<Rightarrow> cpu option" where
  "put c =
     (case next_cell c of
        None \<Rightarrow> None
      | Some (c1, reg) \<Rightarrow>
          (case reg_is_valid c1 reg of
             (False, c2) \<Rightarrow> Some c2
           | (True, c2) \<Rightarrow>
               (let ch = registers c2 (reg_index reg)
                in if sint ch < 0 \<or> sint ch > 255 then Some (c2\<lparr>status := CPU_ILLEGAL_OPERAND\<rparr>)
                   else Some (c2\<lparr>stdout := stdout c2 @ [Putchar ch],
                                 instruction_index := instruction_index c2 + 1\<rparr>))))"

text \<open>Both operands are read first; the second validity check runs only when the first
  one passed.\<close>

definition swap :: "cpu \<Rightarrow> cpu option" where
  "swap c =
     (case next_cell c of
        None \<Rightarrow> None
      | Some (c1, reg1) \<Rightarrow>
          (case next_cell c1 of
             None \<Rightarrow> None
           | Some (c2, reg2) \<Rightarrow>
               (case reg_is_valid c2 reg1 of
                  (False, c3) \<Rightarrow> Some c3
                | (True, c3) \<Rightarrow>
                    (case reg_is_valid c3 reg2 of
                       (False, c4) \<Rightarrow> Some c4
                     | (True, c4) \<Rightarrow>
                         (let reg2_bckp = registers c4 (reg_index reg2);
                              c5 = c4\<lparr>registers := (registers c4)
                                           (reg_index reg2 := registers c4 (reg_index reg1))\<rparr>;
                              c6 = c5\<lparr>registers := (registers c5)(reg_index reg1 := reg2_bckp)\<rparr>
                          in Some (c6\<lparr>instruction_index := instruction_index c6 + 1\<rparr>))))))"

definition push :: "cpu \<Rightarrow> cpu option" where
  "push c =
     (case next_cell c of
        None \<Rightarrow> None
      | Some (c1, reg) \<Rightarrow>
          (case reg_is_valid c1 reg of
             (False, c2) \<Rightarrow> Some c2
           | (True, c2) \<Rightarrow>
               (case stack_bottom c2 of
                  None \<Rightarrow> None
                | Some sb \<Rightarrow>
                    if sint (stack_size c2) = sb - stack_top c2 + 1 then
                      Some (c2\<lparr>status := CPU_INVALID_STACK_OPERATION\<rparr>)
                    else
                      (case mem_write c2 (sb - sint (stack_size c2)) (registers c2 (reg_index reg)) of
                         None \<Rightarrow> None
                       | Some c3 \<Rightarrow>
                           Some (c3\<lparr>stack_size := stack_size c3 + 1,
                                    instruction_index := instruction_index c3 + 1\<rparr>)))))"

text \<open>The index \<^verbatim>\<open>idx\<close> is an \<^verbatim>\<open>int32_t\<close>: the pointer difference is cut to 32
  bits.\<close>

definition pop :: "cpu \<Rightarrow> cpu option" where
  "pop c =
     (case next_cell c of
        None \<Rightarrow> None
      | Some (c1, reg) \<Rightarrow>
          (case reg_is_valid c1 reg of
             (False, c2) \<Rightarrow> Some c2
           | (True, c2) \<Rightarrow>
               if sint (stack_size c2) \<le> 0 then Some (c2\<lparr>status := CPU_INVALID_STACK_OPERATION\<rparr>)
               else
                 (case stack_bottom c2 of
                    None \<Rightarrow> None
                  | Some sb \<Rightarrow>
                      (let c3 = c2\<lparr>stack_size := stack_size c2 - 1\<rparr>;
                           idx = (word_of_int (sb - sint (stack_size c3)) :: int32)
                       in case mem_read c3 (sint idx) of
                            None \<Rightarrow> None
                          | Some v \<Rightarrow>
                              (case mem_write (c3\<lparr>registers := (registers c3)(reg_index reg := v)\<rparr>)
                                      (sint idx) 0 of
                                 None \<Rightarrow> None
                               | Some c4 \<Rightarrow>
                                   Some (c4\<lparr>instruction_index := instruction_index c4 + 1\<rparr>))))))"

text \<open>The dispatch table, in the order of the source. Only \<open>in_reg\<close> and \<open>get\<close> ask the
  C library for input.\<close>

definition instructions :: "(stdin_reply \<Rightarrow> cpu \<Rightarrow> cpu option) list" where
  "instructions =
     [\<lambda>io. nop, \<lambda>io. halt, \<lambda>io. add, \<lambda>io. sub, \<lambda>io. mul, \<lambda>io. div_reg, \<lambda>io. inc,
      \<lambda>io. dec, \<lambda>io. loop, \<lambda>io. movr, \<lambda>io. load, \<lambda>io. store, in_reg, get,
      \<lambda>io. out, \<lambda>io. put, \<lambda>io. swap, \<lambda>io. push, \<lambda>io. pop]"

section \<open>The execution driver\<close>

text \<open>\<open>cpu_step\<close> returns the new state and the C function's return value.\<close>

definition cpu_step :: "stdin_reply \<Rightarrow> cpu \<Rightarrow> (cpu \<times> int) option" where
  "cpu_step io c =
     (if status c \<noteq> CPU_OK then Some (c, 0)
      else
        (let index = instruction_index c
         in if sint index < 0 \<or> sint index > stack_top c - 1 then
              Some (c\<lparr>status := CPU_INVALID_ADDRESS\<rparr>, 0)
            else
              (case mem_read c (sint index) of
                 None \<Rightarrow> None
               | Some instruction \<Rightarrow>
                   if sint instruction < 0 \<or> sint instruction > 18 then
                     Some (c\<lparr>status := CPU_ILLEGAL_INSTRUCTION\<rparr>, 0)
                   else
                     (case (instructions ! nat (sint instruction)) io c of
                        None \<Rightarrow> None
                      | Some c' \<Rightarrow> if status c' \<noteq> CPU_OK then Some (c', 0) else Some (c', 1)))))"



section \<open>Loading, construction and reset\<close>

text \<open>Four bytes of the file make one cell, in the byte order of the host (the buffer of
  \<^verbatim>\<open>char\<close> is read through an \<^verbatim>\<open>int32_t *\<close>); the embedding fixes a little-endian
  host.\<close>

definition cell_of_bytes :: "byte \<Rightarrow> byte \<Rightarrow> byte \<Rightarrow> byte \<Rightarrow> int32" where
  "cell_of_bytes b0 b1 b2 b3 =
     ucast b0 + 256 * ucast b1 + 65536 * ucast b2 + 16777216 * ucast b3"

fun cells_of :: "byte list \<Rightarrow> int32 list" where
  "cells_of (b0 # b1 # b2 # b3 # rest) = cell_of_bytes b0 b1 b2 b3 # cells_of rest"
| "cells_of _ = []"

text \<open>The reading loop of \<open>cpu_create_memory\<close>. The file is the list of its bytes,
  \<open>memory_init\<close> holds the bytes stored so far (\<^verbatim>\<open>size\<close> is its length, \<open>sz\<close>
  below), and \<open>alloc n\<close> tells whether the allocator grants a request of \<open>n\<close> bytes. The
  counters \<^verbatim>\<open>size\<close> and \<^verbatim>\<open>capacity\<close> are computed exactly; the
  \<^verbatim>\<open>int32_t\<close> of the source agree with them for every file below 2 GiB.\<close>

fun read_program :: "(size_t \<Rightarrow> bool) \<Rightarrow> byte list \<Rightarrow> byte list \<Rightarrow> int \<Rightarrow> (byte list \<times> int) option" where
  "read_program alloc [] memory_init capacity = Some (memory_init, capacity)"
| "read_program alloc (ch # rest) memory_init capacity =
     (if int (length memory_init) + 1 > capacity then
        (if alloc (word_of_int (capacity + BLOCK_SIZE)) then
           read_program alloc rest (memory_init @ [ch]) (capacity + BLOCK_SIZE)
         else None)
      else read_program alloc rest (memory_init @ [ch]) capacity)"

text \<open>The growth that makes room for the stack is computed in \<^verbatim>\<open>size_t\<close> and stored
  back into the \<^verbatim>\<open>int32_t\<close> \<^verbatim>\<open>capacity\<close>.\<close>

definition stack_room :: "(size_t \<Rightarrow> bool) \<Rightarrow> int \<Rightarrow> int \<Rightarrow> size_t \<Rightarrow> int option" where
  "stack_room alloc capacity sz stack_capacity =
     (if (word_of_int (capacity - sz) :: size_t) < stack_capacity * word_of_int CELL_SIZE then
        (let grow = word_of_int BLOCK_SIZE *
                      (((stack_capacity - 1) * word_of_int CELL_SIZE - word_of_int capacity
                          + word_of_int sz + word_of_int BLOCK_SIZE) div word_of_int BLOCK_SIZE);
             capacity' = sint (ucast (word_of_int capacity + grow :: size_t) :: int32)
         in if alloc (word_of_int capacity') then Some capacity' else None)
      else Some capacity)"

text \<open>\<open>None\<close> is the \<^verbatim>\<open>NULL\<close> the loader returns; otherwise the buffer and
  \<^verbatim>\<open>*stack_bottom\<close>.\<close>

definition cpu_create_memory :: "(size_t \<Rightarrow> bool) \<Rightarrow> byte list \<Rightarrow> size_t \<Rightarrow> (int32 list \<times> int) option" where
  "cpu_create_memory alloc program stack_capacity =
     (if \<not> alloc (word_of_int BLOCK_SIZE) then None
      else
        (case read_program alloc program [] BLOCK_SIZE of
           None \<Rightarrow> None
         | Some (memory_init, capacity) \<Rightarrow>
             (let sz = int (length memory_init)
              in if sz mod CELL_SIZE \<noteq> 0 then None
                 else
                   (case stack_room alloc capacity sz stack_capacity of
                      None \<Rightarrow> None
                    | Some capacity' \<Rightarrow>
                        (let stack_bottom = c_quot capacity' CELL_SIZE - 1;
                             occupied_cells = sz div CELL_SIZE
                         in Some (cells_of memory_init
                                    @ replicate (nat (stack_bottom - occupied_cells + 1)) 0,
                                  stack_bottom))))))"

text \<open>\<^verbatim>\<open>sizeof(struct cpu)\<close> on an LP64 host.\<close>

definition sizeof_struct_cpu :: size_t where
  "sizeof_struct_cpu = 56"

text \<open>The pointer \<^verbatim>\<open>stack_top\<close> is computed on 64-bit addresses: the byte offset of
  \<^verbatim>\<open>stack_bottom - stack_capacity + 1\<close> is taken modulo \<open>2 ^ 64\<close>, and the index is the
  signed difference to \<^verbatim>\<open>memory\<close> that \<open>cpu_step\<close> and \<open>push\<close> compute from it.\<close>

definition cpu_create :: "(size_t \<Rightarrow> bool) \<Rightarrow> int32 list \<Rightarrow> int \<Rightarrow> size_t \<Rightarrow> cpu option" where
  "cpu_create alloc mem sb stack_capacity =
     (if \<not> alloc sizeof_struct_cpu then None
      else
        Some (cpu_clear
               \<lparr>registers = (\<lambda>_. 0), status = CPU_OK, stack_size = 0, instruction_index = 0,
                memory = mem, stack_bottom = Some sb,
                stack_top =
                  sint (word_of_int (CELL_SIZE * (sb - uint stack_capacity + 1)) :: size_t)
                    div CELL_SIZE,
                stdout = []\<rparr>))"

text \<open>\<^verbatim>\<open>memset(p, 0, n)\<close> on the buffer of cells: \<open>start\<close> is the cell \<open>p\<close> points to
  and \<open>n\<close> the number of bytes.\<close>

definition memset_zero :: "int32 list \<Rightarrow> int \<Rightarrow> nat \<Rightarrow> int32 list option" where
  "memset_zero mem start n =
     (let cells = n div nat CELL_SIZE
      in if 0 \<le> start \<and> start + int cells \<le> int (length mem) \<and> n mod nat CELL_SIZE = 0 then
           Some (take (nat start) mem @ replicate cells 0 @ drop (nat start + cells) mem)
         else None)"

definition cpu_reset :: "cpu \<Rightarrow> cpu option" where
  "cpu_reset c =
     (let c1 = cpu_clear c
      in case stack_bottom c1 of
           None \<Rightarrow> None
         | Some sb \<Rightarrow>
             (case memset_zero (memory c1) sb
                     (unat (word_of_int (sint (stack_size c1 * word_of_int CELL_SIZE)) :: size_t)) of
                None \<Rightarrow> None
              | Some m \<Rightarrow> Some (c1\<lparr>memory := m, stack_bottom := None\<rparr>)))"

section \<open>Runs of the machine\<close>

text \<open>\<open>steps_from ios k c\<close> is the state after \<open>k\<close> calls of \<open>cpu_step\<close> from \<open>c\<close>;
  \<open>reachable c0 c\<close> says that some number of calls, with some answers of the C library,
  leads from \<open>c0\<close> to \<open>c\<close>.\<close>

fun steps_from :: "(nat \<Rightarrow> stdin_reply) \<Rightarrow> nat \<Rightarrow> cpu \<Rightarrow> cpu option" where
  "steps_from ios 0 c = Some c"
| "steps_from ios (Suc k) c =
     (case steps_from ios k c of
        None \<Rightarrow> None
      | Some c' \<Rightarrow> map_option fst (cpu_step (ios k) c'))"

inductive reachable :: "cpu \<Rightarrow> cpu \<Rightarrow> bool" for c0 :: cpu where
  reachable_init: "reachable c0 c0"
| reachable_step: "reachable c0 c \<Longrightarrow> cpu_step io c = Some (c', r) \<Longrightarrow> reachable c0 c'"

text \<open>\<open>main\<close> builds the machine from the loader's result, and gives up when the loader
  returned \<^verbatim>\<open>NULL\<close>.\<close>

definition main_create :: "(size_t \<Rightarrow> bool) \<Rightarrow> byte list \<Rightarrow> size_t \<Rightarrow> cpu option" where
  "main_create alloc program stack_capacity =
     (case cpu_create_memory alloc program stack_capacity of
        None \<Rightarrow> None
      | Some (mem, stack_ptr) \<Rightarrow> cpu_create alloc mem stack_ptr stack_capacity)"

subsection \<open>Vocabulary of the statements\<close>

text \<open>\<open>executes c opcode\<close>: a call of \<open>cpu_step\<close> on \<open>c\<close> fetches \<open>opcode\<close> and runs its
  handler. \<open>operand c k v\<close>: the \<open>k\<close>-th cell after the opcode holds \<open>v\<close>.\<close>

definition executes :: "cpu \<Rightarrow> int32 \<Rightarrow> bool" where
  "executes c opcode \<longleftrightarrow>
     status c = CPU_OK \<and> 0 \<le> sint (instruction_index c) \<and> sint (instruction_index c) < stack_top c
     \<and> mem_read c (sint (instruction_index c)) = Some opcode"

definition operand :: "cpu \<Rightarrow> int32 \<Rightarrow> int32 \<Rightarrow> bool" where
  "operand c k v \<longleftrightarrow> mem_read c (sint (instruction_index c + k)) = Some v"

subsection \<open>Example machines\<close>

text \<open>\<open>test_machine cells cap\<close> is the state \<open>cpu_create\<close> builds around a buffer that
  holds the program \<open>cells\<close> followed by \<open>cap\<close> zeroed stack cells.\<close>

definition test_machine :: "int32 list \<Rightarrow> nat \<Rightarrow> cpu" where
  "test_machine cells cap =
     \<lparr>registers = (\<lambda>_. 0), status = CPU_OK, stack_size = 0, instruction_index = 0,
      memory = cells @ replicate cap 0,
      stack_bottom = Some (int (length cells) + int cap - 1),
      stack_top = int (length cells), stdout = []\<rparr>"

definition no_input :: stdin_reply where
  "no_input = \<lparr>scanf_reply = Scanf_EOF, getchar_reply = Getchar_EOF\<rparr>"

text \<open>The state after \<^verbatim>\<open>inc A; push A\<close> on a machine with two stack cells.\<close>

definition pushed_machine :: cpu where
  "pushed_machine =
     \<lparr>registers = (\<lambda>_. 0)(REGISTER_A := 1), status = CPU_OK, stack_size = 1,
      instruction_index = 4, memory = [6, 0, 17, 0, 0, 1],
      stack_bottom = Some 5, stack_top = 4, stdout = []\<rparr>"

text \<open>Vocabulary for failing instructions. \<open>invalid_reg v\<close>: the cell value \<open>v\<close> is not
  one of the four register numbers. \<open>one_reg_opcodes\<close>: the opcodes whose handler reads a
  register operand first (\<open>swap\<close>, opcode 16, reads two operands before it checks them).
  \<open>operands_read c\<close>: the number of operand cells the instruction at the instruction index
  of \<open>c\<close> has read when it fails: none when the fetch itself fails or for \<open>halt\<close>, two for
  \<open>swap\<close> and for a \<open>load\<close> or \<open>store\<close> whose register operand is valid, and one
  otherwise.\<close>

definition invalid_reg :: "int32 \<Rightarrow> bool" where
  "invalid_reg v \<longleftrightarrow> sint v < 0 \<or> 3 < sint v"

definition one_reg_opcodes :: "int32 list" where
  "one_reg_opcodes = [2, 3, 4, 5, 6, 7, 9, 10, 11, 12, 13, 14, 15, 17, 18]"

definition operands_read :: "cpu \<Rightarrow> int32" where
  "operands_read c =
     (if sint (instruction_index c) < 0 \<or> stack_top c - 1 < sint (instruction_index c) then 0
      else
        (case mem_read c (sint (instruction_index c)) of
           None \<Rightarrow> 0
         | Some opcode \<Rightarrow>
             if opcode = 16 then 2
             else if opcode = 10 \<or> opcode = 11 then
               (case mem_read c (sint (instruction_index c + 1)) of
                  None \<Rightarrow> 0
                | Some v \<Rightarrow> if invalid_reg v then 1 else 2)
             else if opcode \<in> set one_reg_opcodes then 1
             else 0))"

text \<open>The address \<open>load\<close> and \<open>store\<close> compute from their second operand \<open>num\<close>, as a cell
  index.\<close>

definition target_cell :: "cpu \<Rightarrow> int \<Rightarrow> int32 \<Rightarrow> int" where
  "target_cell c sb num =
     sb - sint (stack_size c) + sint (registers c REGISTER_D + num) + 1"

text \<open>A machine about to execute \<^verbatim>\<open>put A\<close> with 300 in A.\<close>

definition put_machine :: cpu where
  "put_machine = (test_machine [15, 0] 2)\<lparr>registers := (\<lambda>_. 300)\<rparr>"

definition malformed_input :: stdin_reply where
  "malformed_input = \<lparr>scanf_reply = Scanf_0, getchar_reply = Getchar_EOF\<rparr>"

text \<open>The second scenario of the specification: cells \<^verbatim>\<open>[17, 0, 18, 1, 1]\<close>
  (\<^verbatim>\<open>push A; pop B; halt\<close>) with register A preset to 7.\<close>

definition push_pop_machine :: cpu where
  "push_pop_machine =
     (test_machine [17, 0, 18, 1, 1] 2)\<lparr>registers := (\<lambda>_. 0)(REGISTER_A := 7)\<rparr>"



text \<open>A program file of 16 bytes, the cells \<^verbatim>\<open>[6, 2, 8, 1000]\<close> on a little-endian
  host (\<^verbatim>\<open>inc C; loop 1000\<close>); the machine \<open>main\<close> builds from it with the default stack
  capacity of 256 cells; and the state of that machine after two steps.\<close>

definition loop_program :: "byte list" where
  "loop_program = [6, 0, 0, 0, 2, 0, 0, 0, 8, 0, 0, 0, 232, 3, 0, 0]"

definition loop_machine :: cpu where
  "loop_machine =
     \<lparr>registers = (\<lambda>_. 0), status = CPU_OK, stack_size = 0, instruction_index = 0,
      memory = [6, 2, 8, 1000] @ replicate 1020 0,
      stack_bottom = Some 1023, stack_top = 768, stdout = []\<rparr>"

definition loop_jumped :: cpu where
  "loop_jumped =
     loop_machine\<lparr>registers := (\<lambda>_. 0)(REGISTER_C := 1), instruction_index := 1000\<rparr>"

text \<open>\<open>wf_cpu c\<close>: the state is laid out as the loader and \<open>cpu_create\<close> lay it out, with
  a stack of at least two cells: \<open>stack_bottom\<close> is the last cell of the buffer, the code
  region is not negative, and \<open>stack_size\<close> is between 0 and the capacity. \<open>fetch_ok c\<close>: in
  addition the instruction index is within the code bounds.\<close>

definition wf_cpu :: "cpu \<Rightarrow> bool" where
  "wf_cpu c \<longleftrightarrow>
     (case stack_bottom c of
        None \<Rightarrow> False
      | Some sb \<Rightarrow>
          int (length (memory c)) = sb + 1 \<and> sb < 2 ^ 31 - 2 \<and>
          0 \<le> stack_top c \<and> stack_top c < sb \<and>
          0 \<le> sint (stack_size c) \<and> sint (stack_size c) \<le> sb - stack_top c + 1)"

text \<open>\<open>div_overflow_at c\<close>: the operand after the instruction index is a valid register
  holding \<open>- 1\<close> while A holds \<open>- 2 ^ 31\<close>; \<open>div_overflows c\<close>: the next step executes
  \<open>div\<close> on such operands.\<close>

definition div_overflow_at :: "cpu \<Rightarrow> bool" where
  "div_overflow_at c \<longleftrightarrow>
     (case mem_read c (sint (instruction_index c + 1)) of
        None \<Rightarrow> False
      | Some v \<Rightarrow>
          0 \<le> sint v \<and> sint v \<le> 3 \<and> sint (registers c REGISTER_A) = - (2 ^ 31)
          \<and> sint (registers c (reg_index v)) = - 1)"

definition div_overflows :: "cpu \<Rightarrow> bool" where
  "div_overflows c \<longleftrightarrow> executes c 5 \<and> div_overflow_at c"

definition fetch_ok :: "cpu \<Rightarrow> bool" where
  "fetch_ok c \<longleftrightarrow> wf_cpu c \<and> 0 \<le> sint (instruction_index c) \<and> sint (instruction_index c) < stack_top c"

text \<open>\<open>stopped c k s\<close>: the state \<open>c\<close> with status \<open>s\<close> and the instruction index moved by \<open>k\<close>
  cells, everything else as it was.\<close>

definition stopped :: "cpu \<Rightarrow> int32 \<Rightarrow> cpu_status \<Rightarrow> cpu" where
  "stopped c k s = c\<lparr>instruction_index := instruction_index c + k, status := s\<rparr>"



section \<open>Properties\<close>

subsection \<open>Basic facts\<close>

lemma reg_index_code [simp]: "reg_index (reg_code r) = r"
  by (cases r) (simp_all add: reg_index_def reg_code_def)

lemma sint_reg_code: "0 \<le> sint (reg_code r) \<and> sint (reg_code r) \<le> 3"
  by (cases r) (simp_all add: reg_code_def)

lemma reg_is_valid_code [simp]: "reg_is_valid c (reg_code r) = (True, c)"
  using sint_reg_code [of r] by (simp add: reg_is_valid_def)

lemma next_cell_operand:
  "operand c 1 v \<Longrightarrow> next_cell c = Some (c\<lparr>instruction_index := instruction_index c + 1\<rparr>, v)"
  by (simp add: operand_def next_cell_def mem_read_def Let_def split: if_splits)

lemma cpu_step_executes:
  "executes c opcode \<Longrightarrow> 0 \<le> sint opcode \<Longrightarrow> sint opcode \<le> 18 \<Longrightarrow>
   cpu_step io c =
     (case (instructions ! nat (sint opcode)) io c of
        None \<Rightarrow> None
      | Some c' \<Rightarrow> if status c' \<noteq> CPU_OK then Some (c', 0) else Some (c', 1))"
  by (simp add: executes_def cpu_step_def Let_def)

lemma instructions_nth:
  "instructions ! 5 = (\<lambda>io. div_reg)"
  "instructions ! 12 = in_reg"
  "instructions ! 13 = get"
  "instructions ! 17 = (\<lambda>io. push)"
  "instructions ! 18 = (\<lambda>io. pop)"
  by (simp_all add: instructions_def)

lemma steps_from_numeral:
  "steps_from ios (numeral n) c =
     (case steps_from ios (pred_numeral n) c of
        None \<Rightarrow> None
      | Some c' \<Rightarrow> map_option fst (cpu_step (ios (pred_numeral n)) c'))"
  by (simp add: numeral_eq_Suc)

lemma steps_from_not_ok: "status c \<noteq> CPU_OK \<Longrightarrow> steps_from ios k c = Some c"
  by (induction k) (simp_all add: cpu_step_def)

lemma read_program_length:
  "read_program alloc p buf cap = Some (buf', cap') \<Longrightarrow> length buf' = length buf + length p"
  by (induction p arbitrary: buf cap) (auto split: if_splits)

lemma cpu_reset_memory: "cpu_reset c = Some c' \<Longrightarrow> memory c' = memory c"
  by (auto simp add: cpu_reset_def cpu_clear_def memset_zero_def Let_def CELL_SIZE_def
      split: option.splits if_splits)

subsection \<open>Stepping a stopped machine\<close>

text \<open>
  Claim C3. A call of \<open>cpu_step\<close> on a state whose status is not \<open>CPU_OK\<close> returns 0 and
  the very same state: registers, memory, stack size, instruction index and status are
  untouched. A state that executes opcode 1 gets status \<open>CPU_HALTED\<close> (and nothing else
  changes), and from then on any number of further calls leaves the state as it is.
\<close>

theorem cpu_step_stopped_noop:
  "(status c \<noteq> CPU_OK \<longrightarrow> cpu_step io c = Some (c, 0)) \<and>
   (executes c 1 \<longrightarrow>
      cpu_step io c = Some (c\<lparr>status := CPU_HALTED\<rparr>, 0) \<and>
      (\<forall>ios k. steps_from ios k (c\<lparr>status := CPU_HALTED\<rparr>) = Some (c\<lparr>status := CPU_HALTED\<rparr>)))"
  by (auto simp add: executes_def cpu_step_def instructions_def halt_def steps_from_not_ok)

theorem cpu_step_stopped_noop_witness:
  "status ((test_machine [1] 2)\<lparr>status := CPU_DIV_BY_ZERO\<rparr>) \<noteq> CPU_OK \<and>
   cpu_step no_input ((test_machine [1] 2)\<lparr>status := CPU_DIV_BY_ZERO\<rparr>)
     = Some ((test_machine [1] 2)\<lparr>status := CPU_DIV_BY_ZERO\<rparr>, 0) \<and>
   executes (test_machine [1] 2) 1 \<and>
   cpu_step no_input (test_machine [1] 2) = Some ((test_machine [1] 2)\<lparr>status := CPU_HALTED\<rparr>, 0) \<and>
   steps_from (\<lambda>_. no_input) 5 ((test_machine [1] 2)\<lparr>status := CPU_HALTED\<rparr>)
     = Some ((test_machine [1] 2)\<lparr>status := CPU_HALTED\<rparr>)"
proof -
  have ex: "executes (test_machine [1] 2) 1"
    by (simp add: executes_def test_machine_def mem_read_def)
  have st: "status ((test_machine [1] 2)\<lparr>status := CPU_DIV_BY_ZERO\<rparr>) \<noteq> CPU_OK"
    by simp
  show ?thesis
    using ex st
      cpu_step_stopped_noop [of "(test_machine [1] 2)\<lparr>status := CPU_DIV_BY_ZERO\<rparr>" no_input]
      cpu_step_stopped_noop [of "test_machine [1] 2" no_input]
    by simp
qed

subsection \<open>Loading a misaligned program\<close>

text \<open>
  Claim C9. When the number of bytes of the program file is not a multiple of 4, the
  loader \<open>cpu_create_memory\<close> returns \<^verbatim>\<open>NULL\<close> (whatever the allocator grants and
  whatever stack capacity is asked for), so \<open>main\<close> never reaches \<open>cpu_create\<close>: no machine
  state is built.
\<close>

theorem cpu_create_memory_misaligned:
  "length program mod 4 \<noteq> 0 \<Longrightarrow>
     cpu_create_memory alloc program stack_capacity = None \<and>
     main_create alloc program stack_capacity = None"
proof -
  assume odd: "length program mod 4 \<noteq> 0"
  have "int (length buf) mod 4 \<noteq> 0"
    if "read_program alloc program [] cap = Some (buf, cap')" for buf cap cap'
    using read_program_length [OF that] odd by simp presburger
  then have "cpu_create_memory alloc program stack_capacity = None"
    by (auto simp add: cpu_create_memory_def CELL_SIZE_def Let_def split: option.splits)
  then show ?thesis
    by (simp add: main_create_def)
qed

theorem cpu_create_memory_misaligned_witness:
  "length [1, 0, 0 :: byte] mod 4 \<noteq> 0 \<and>
   cpu_create_memory (\<lambda>_. True) [1, 0, 0] 256 = None \<and>
   main_create (\<lambda>_. True) [1, 0, 0] 256 = None"
  using cpu_create_memory_misaligned [of "[1, 0, 0]" "\<lambda>_. True" 256] by simp

subsection \<open>Reset\<close>

text \<open>
  Claim C4 (the code departs from it). \<open>cpu_reset\<close> clears the registers, the status, the
  instruction index and the stack size, but it zero-fills nothing: \<open>cpu_clear\<close> has set
  \<^verbatim>\<open>stack_size\<close> to 0 before \<^verbatim>\<open>memset\<close> computes its length from it. On the
  state reached by \<^verbatim>\<open>inc A; push A\<close> the pushed value 1 is still in the stack cell 5
  after the reset.
\<close>

theorem cpu_reset_leaves_stack_cell:
  "steps_from (\<lambda>_. no_input) 2 (test_machine [6, 0, 17, 0] 2) = Some pushed_machine \<and>
   cpu_reset pushed_machine =
     Some (pushed_machine\<lparr>registers := (\<lambda>_. 0), stack_size := 0, instruction_index := 0,
                          stack_bottom := None\<rparr>) \<and>
   memory pushed_machine ! 5 = 1 \<and>
   map_option (\<lambda>c. memory c ! 5) (cpu_reset pushed_machine) = Some 1"
proof -
  have 1: "cpu_step no_input (test_machine [6, 0, 17, 0] 2) =
     Some ((test_machine [6, 0, 17, 0] 2)
             \<lparr>registers := (\<lambda>_. 0)(REGISTER_A := 1), instruction_index := 2\<rparr>, 1)"
    by (simp add: cpu_step_def test_machine_def mem_read_def instructions_def inc_def
        next_cell_def reg_is_valid_def reg_index_def Let_def)
  have 2: "cpu_step no_input
             ((test_machine [6, 0, 17, 0] 2)
                \<lparr>registers := (\<lambda>_. 0)(REGISTER_A := 1), instruction_index := 2\<rparr>)
      = Some (pushed_machine, 1)"
    by (simp add: cpu_step_def test_machine_def mem_read_def mem_write_def instructions_def
        push_def next_cell_def reg_is_valid_def reg_index_def Let_def pushed_machine_def
        numeral_2_eq_2)
  have 3: "cpu_reset pushed_machine =
     Some (pushed_machine\<lparr>registers := (\<lambda>_. 0), stack_size := 0, instruction_index := 0,
                          stack_bottom := None\<rparr>)"
    by (simp add: cpu_reset_def cpu_clear_def pushed_machine_def memset_zero_def CELL_SIZE_def)
  show ?thesis
    by (simp add: steps_from_numeral 1 2 3) (simp add: pushed_machine_def)
qed

subsection \<open>Stack overflow and underflow\<close>

text \<open>
  Claim C7. Let the operand of the instruction be a valid register. A \<open>push\<close> (opcode 17)
  executed when \<open>stack_size\<close> equals the capacity \<open>stack_bottom - stack_top + 1\<close> sets the
  status to \<open>CPU_INVALID_STACK_OPERATION\<close>; a \<open>pop\<close> (opcode 18) executed when
  \<open>stack_size\<close> is 0 does the same. In both cases the resulting state differs from the
  old one only in the status and in the instruction index (which rests on the operand
  cell): \<open>stack_size\<close> and every memory cell are unchanged.
\<close>

theorem push_full_pop_empty:
  "(executes c 17 \<and> operand c 1 (reg_code r) \<and> stack_bottom c = Some sb
      \<and> sint (stack_size c) = sb - stack_top c + 1 \<longrightarrow>
    (\<exists>c'. cpu_step io c = Some (c', 0) \<and> status c' = CPU_INVALID_STACK_OPERATION
        \<and> stack_size c' = stack_size c \<and> memory c' = memory c
        \<and> c' = c\<lparr>instruction_index := instruction_index c + 1,
                   status := CPU_INVALID_STACK_OPERATION\<rparr>))
   \<and>
   (executes c 18 \<and> operand c 1 (reg_code r) \<and> stack_size c = 0 \<longrightarrow>
    (\<exists>c'. cpu_step io c = Some (c', 0) \<and> status c' = CPU_INVALID_STACK_OPERATION
        \<and> stack_size c' = stack_size c \<and> memory c' = memory c
        \<and> c' = c\<lparr>instruction_index := instruction_index c + 1,
                   status := CPU_INVALID_STACK_OPERATION\<rparr>))"
  by (auto simp add: cpu_step_executes instructions_nth push_def pop_def next_cell_operand)

theorem push_full_pop_empty_witness:
  "executes ((test_machine [17, 0] 1)\<lparr>stack_size := 1\<rparr>) 17 \<and>
   operand ((test_machine [17, 0] 1)\<lparr>stack_size := 1\<rparr>) 1 (reg_code REGISTER_A) \<and>
   cpu_step no_input ((test_machine [17, 0] 1)\<lparr>stack_size := 1\<rparr>) =
     Some ((test_machine [17, 0] 1)
             \<lparr>stack_size := 1, instruction_index := 1, status := CPU_INVALID_STACK_OPERATION\<rparr>, 0) \<and>
   executes (test_machine [18, 1] 2) 18 \<and>
   operand (test_machine [18, 1] 2) 1 (reg_code REGISTER_B) \<and>
   cpu_step no_input (test_machine [18, 1] 2) =
     Some ((test_machine [18, 1] 2)
             \<lparr>instruction_index := 1, status := CPU_INVALID_STACK_OPERATION\<rparr>, 0)"
proof -
  let ?full = "(test_machine [17, 0] 1)\<lparr>stack_size := 1\<rparr>"
  let ?empty = "test_machine [18, 1] 2"
  have full: "executes ?full 17" "operand ?full 1 (reg_code REGISTER_A)"
    "stack_bottom ?full = Some 2" "sint (stack_size ?full) = 2 - stack_top ?full + 1"
    by (simp_all add: executes_def operand_def test_machine_def mem_read_def reg_code_def)
  have empty: "executes ?empty 18" "operand ?empty 1 (reg_code REGISTER_B)" "stack_size ?empty = 0"
    by (simp_all add: executes_def operand_def test_machine_def mem_read_def reg_code_def)
  show ?thesis
    using full empty
      push_full_pop_empty [of ?full REGISTER_A 2 no_input]
      push_full_pop_empty [of ?empty REGISTER_B 0 no_input]
    by (simp add: test_machine_def)
qed

subsection \<open>Division\<close>

lemma abs_div_bounds:
  fixes a b :: int
  shows "0 \<le> \<bar>a\<bar> div \<bar>b\<bar>" and "\<bar>a\<bar> div \<bar>b\<bar> \<le> \<bar>a\<bar>"
proof -
  show "0 \<le> \<bar>a\<bar> div \<bar>b\<bar>"
    by (simp add: div_int_pos_iff)
  show "\<bar>a\<bar> div \<bar>b\<bar> \<le> \<bar>a\<bar>"
  proof (cases "b = 0")
    case True
    then show ?thesis by simp
  next
    case False
    then have "\<bar>a\<bar> div \<bar>b\<bar> \<le> \<bar>a\<bar> div 1"
      by (intro zdiv_mono2) auto
    then show ?thesis by simp
  qed
qed

text \<open>The truncated quotient of two 32-bit values is a 32-bit value, except for
  \<open>- 2 ^ 31\<close> divided by \<open>- 1\<close>.\<close>

lemma c_quot_range:
  assumes a: "- (2 ^ 31) \<le> a" "a < 2 ^ 31" and nov: "\<not> (a = - (2 ^ 31) \<and> b = - 1)"
  shows "- (2 ^ 31) \<le> c_quot a b \<and> c_quot a b < 2 ^ 31"
proof (cases "(a < 0) = (b < 0)")
  case False
  then have "c_quot a b = - (\<bar>a\<bar> div \<bar>b\<bar>)"
    by (simp add: c_quot_def)
  with abs_div_bounds [of a b] a show ?thesis by simp
next
  case True
  then have q: "c_quot a b = \<bar>a\<bar> div \<bar>b\<bar>"
    by (simp add: c_quot_def)
  show ?thesis
  proof (cases "a = - (2 ^ 31)")
    case False
    with a have "\<bar>a\<bar> < 2 ^ 31" by simp
    with abs_div_bounds [of a b] q show ?thesis by simp
  next
    case amin: True
    with True nov have "2 \<le> \<bar>b\<bar>" by simp
    then have "\<bar>a\<bar> div \<bar>b\<bar> \<le> \<bar>a\<bar> div 2"
      by (intro zdiv_mono2) auto
    with amin abs_div_bounds [of a b] q show ?thesis by simp
  qed
qed


lemma div32_Some:
  assumes "b \<noteq> 0" "\<not> (sint a = - (2 ^ 31) \<and> sint b = - 1)"
  shows "\<exists>q. div32 a b = Some q \<and> sint q = c_quot (sint a) (sint b)"
proof -
  have "- (2 ^ 31) \<le> sint a" "sint a < 2 ^ 31"
    using sint_ge [of a] sint_lt [of a] by simp_all
  from c_quot_range [OF this assms(2)] assms
  show ?thesis
    by (simp add: div32_def signed_eq_0_iff signed_of_int signed_take_bit_int_eq_self)
qed

lemma div32_None:
  "sint a = - (2 ^ 31) \<Longrightarrow> sint b = - 1 \<Longrightarrow> div32 a b = None"
  by (simp add: div32_def)




subsection \<open>End of input\<close>

text \<open>
  Claim C5, as the code has it. Let \<open>in\<close> (opcode 12) or \<open>get\<close> (opcode 13) be executed
  with a valid register \<open>r\<close> as operand while the input is at its end (\<^verbatim>\<open>scanf\<close>,
  respectively \<^verbatim>\<open>getchar\<close>, answers \<^verbatim>\<open>EOF\<close>). Then the status stays \<open>CPU_OK\<close>,
  the step reports an advance, the instruction index moves by 2 (past the opcode and its
  operand), register \<open>r\<close> holds \<open>- 1\<close>, and register C holds 0 provided \<open>r\<close> is not C.
  \<open>handle_eof\<close> writes C first and \<open>r\<close> second, so for \<open>r\<close> = C the register ends as
  \<open>- 1\<close>.
\<close>

theorem eof_sets_registers:
  "executes c opcode \<and> operand c 1 (reg_code r) \<and>
   (opcode = 12 \<and> scanf_reply io = Scanf_EOF \<or> opcode = 13 \<and> getchar_reply io = Getchar_EOF) \<longrightarrow>
   (\<exists>c'. cpu_step io c = Some (c', 1) \<and> status c' = CPU_OK
      \<and> registers c' r = - 1
      \<and> (r \<noteq> REGISTER_C \<longrightarrow> registers c' REGISTER_C = 0)
      \<and> instruction_index c' = instruction_index c + 2
      \<and> c' = c\<lparr>registers := (registers c)(REGISTER_C := 0, r := - 1),
                 instruction_index := instruction_index c + 2\<rparr>)"
  by (auto simp add: cpu_step_executes instructions_nth in_reg_def get_def next_cell_operand
      executes_def handle_eof_def)

theorem eof_sets_registers_witness:
  "executes ((test_machine [12, 1] 2)\<lparr>registers := (\<lambda>_. 5)\<rparr>) 12 \<and>
   operand ((test_machine [12, 1] 2)\<lparr>registers := (\<lambda>_. 5)\<rparr>) 1 (reg_code REGISTER_B) \<and>
   scanf_reply no_input = Scanf_EOF \<and>
   cpu_step no_input ((test_machine [12, 1] 2)\<lparr>registers := (\<lambda>_. 5)\<rparr>) =
     Some ((test_machine [12, 1] 2)
             \<lparr>registers := (\<lambda>_. 5)(REGISTER_C := 0, REGISTER_B := - 1), instruction_index := 2\<rparr>, 1) \<and>
   executes ((test_machine [13, 3] 2)\<lparr>registers := (\<lambda>_. 5)\<rparr>) 13 \<and>
   operand ((test_machine [13, 3] 2)\<lparr>registers := (\<lambda>_. 5)\<rparr>) 1 (reg_code REGISTER_D) \<and>
   getchar_reply no_input = Getchar_EOF \<and>
   cpu_step no_input ((test_machine [13, 3] 2)\<lparr>registers := (\<lambda>_. 5)\<rparr>) =
     Some ((test_machine [13, 3] 2)
             \<lparr>registers := (\<lambda>_. 5)(REGISTER_C := 0, REGISTER_D := - 1), instruction_index := 2\<rparr>, 1)"
proof -
  let ?i = "(test_machine [12, 1] 2)\<lparr>registers := (\<lambda>_. 5)\<rparr>"
  let ?g = "(test_machine [13, 3] 2)\<lparr>registers := (\<lambda>_. 5)\<rparr>"
  have i: "executes ?i 12" "operand ?i 1 (reg_code REGISTER_B)" "scanf_reply no_input = Scanf_EOF"
    by (simp_all add: executes_def operand_def test_machine_def mem_read_def reg_code_def
        no_input_def)
  have g: "executes ?g 13" "operand ?g 1 (reg_code REGISTER_D)"
    "getchar_reply no_input = Getchar_EOF"
    by (simp_all add: executes_def operand_def test_machine_def mem_read_def reg_code_def
        no_input_def)
  show ?thesis
    using i g eof_sets_registers [of ?i 12 REGISTER_B no_input]
      eof_sets_registers [of ?g 13 REGISTER_D no_input]
    by (simp add: test_machine_def)
qed

text \<open>With register C as the target, C is not 0 after the step: \<^verbatim>\<open>get C\<close> and
  \<^verbatim>\<open>in C\<close> at the end of the input leave \<open>- 1\<close> in C.\<close>

theorem eof_target_C_counterexample:
  "executes (test_machine [13, 2] 2) 13 \<and>
   operand (test_machine [13, 2] 2) 1 (reg_code REGISTER_C) \<and>
   getchar_reply no_input = Getchar_EOF \<and>
   cpu_step no_input (test_machine [13, 2] 2) =
     Some ((test_machine [13, 2] 2)
             \<lparr>registers := (\<lambda>_. 0)(REGISTER_C := - 1), instruction_index := 2\<rparr>, 1) \<and>
   executes (test_machine [12, 2] 2) 12 \<and>
   operand (test_machine [12, 2] 2) 1 (reg_code REGISTER_C) \<and>
   scanf_reply no_input = Scanf_EOF \<and>
   cpu_step no_input (test_machine [12, 2] 2) =
     Some ((test_machine [12, 2] 2)
             \<lparr>registers := (\<lambda>_. 0)(REGISTER_C := - 1), instruction_index := 2\<rparr>, 1) \<and>
   ((\<lambda>_. 0)(REGISTER_C := - 1)) REGISTER_C \<noteq> (0 :: int32)"
  by (simp add: executes_def operand_def test_machine_def mem_read_def reg_code_def no_input_def
      cpu_step_def instructions_def get_def in_reg_def next_cell_def reg_is_valid_def
      handle_eof_def reg_index_def Let_def)

subsection \<open>What a failing instruction leaves untouched\<close>

lemmas handler_splits = option.splits prod.splits bool.splits if_splits
lemmas handler_defs = next_cell_def reg_is_valid_def mem_read_def mem_write_def Let_def

lemma stopped_0: "stopped c 0 s = c\<lparr>status := s\<rparr>"
  by (simp add: stopped_def)

lemma stopped_fields:
  "registers (stopped c k s) = registers c" "memory (stopped c k s) = memory c"
  "stack_size (stopped c k s) = stack_size c" "stack_bottom (stopped c k s) = stack_bottom c"
  "stack_top (stopped c k s) = stack_top c" "stdout (stopped c k s) = stdout c"
  "status (stopped c k s) = s" "instruction_index (stopped c k s) = instruction_index c + k"
  by (simp_all add: stopped_def)

lemma next_cell_operand2:
  "operand c 2 w \<Longrightarrow>
   next_cell (c\<lparr>instruction_index := instruction_index c + 1\<rparr>) =
     Some (c\<lparr>instruction_index := instruction_index c + 2\<rparr>, w)"
  by (simp add: operand_def next_cell_def mem_read_def Let_def add.commute split: if_splits)

text \<open>Every handler that ends with a status other than \<open>CPU_OK\<close> leaves the state as it
  was, but for the status and the instruction index, which rests on the last operand
  cell read.\<close>

lemma failing_handlers:
  assumes "status c = CPU_OK"
  shows "nop c = Some c' \<Longrightarrow> status c' = CPU_OK"
    and "loop c = Some c' \<Longrightarrow> status c' = CPU_OK"
    and "halt c = Some c' \<Longrightarrow> c' = stopped c 0 (status c')"
    and "add c = Some c' \<Longrightarrow> status c' \<noteq> CPU_OK \<Longrightarrow> c' = stopped c 1 (status c')"
    and "sub c = Some c' \<Longrightarrow> status c' \<noteq> CPU_OK \<Longrightarrow> c' = stopped c 1 (status c')"
    and "mul c = Some c' \<Longrightarrow> status c' \<noteq> CPU_OK \<Longrightarrow> c' = stopped c 1 (status c')"
    and "div_reg c = Some c' \<Longrightarrow> status c' \<noteq> CPU_OK \<Longrightarrow> c' = stopped c 1 (status c')"
    and "inc c = Some c' \<Longrightarrow> status c' \<noteq> CPU_OK \<Longrightarrow> c' = stopped c 1 (status c')"
    and "dec c = Some c' \<Longrightarrow> status c' \<noteq> CPU_OK \<Longrightarrow> c' = stopped c 1 (status c')"
    and "movr c = Some c' \<Longrightarrow> status c' \<noteq> CPU_OK \<Longrightarrow> c' = stopped c 1 (status c')"
    and "out c = Some c' \<Longrightarrow> status c' \<noteq> CPU_OK \<Longrightarrow> c' = stopped c 1 (status c')"
    and "put c = Some c' \<Longrightarrow> status c' \<noteq> CPU_OK \<Longrightarrow> c' = stopped c 1 (status c')"
    and "push c = Some c' \<Longrightarrow> status c' \<noteq> CPU_OK \<Longrightarrow> c' = stopped c 1 (status c')"
    and "pop c = Some c' \<Longrightarrow> status c' \<noteq> CPU_OK \<Longrightarrow> c' = stopped c 1 (status c')"
    and "swap c = Some c' \<Longrightarrow> status c' \<noteq> CPU_OK \<Longrightarrow> c' = stopped c 2 (status c')"
  using assms
  by (auto simp add: nop_def halt_def add_def sub_def mul_def div_reg_def inc_def dec_def
      loop_def movr_def out_def put_def swap_def push_def pop_def stopped_def
      handler_defs split: handler_splits)

lemma failing_handlers_input:
  assumes "status c = CPU_OK"
  shows "in_reg io c = Some c' \<Longrightarrow> status c' \<noteq> CPU_OK \<Longrightarrow> c' = stopped c 1 (status c')"
    and "get io c = Some c' \<Longrightarrow> status c' \<noteq> CPU_OK \<Longrightarrow> c' = stopped c 1 (status c')"
  using assms
  by (auto simp add: in_reg_def get_def handle_eof_def stopped_def handler_defs
      split: handler_splits scanf_result.splits getchar_result.splits)

lemma init_reg_target_address_fails:
  assumes "init_reg_target_address c = Some (ok, c', reg, ta)" "status c = CPU_OK"
  shows "ok \<Longrightarrow> c' = c\<lparr>instruction_index := instruction_index c + 2\<rparr>"
    and "\<not> ok \<Longrightarrow> status c' \<noteq> CPU_OK"
    and "\<not> ok \<Longrightarrow> \<exists>v. mem_read c (sint (instruction_index c + 1)) = Some v
            \<and> c' = stopped c (if invalid_reg v then 1 else 2) (status c')"
  using assms
  by (auto simp add: init_reg_target_address_def in_stack_def stopped_def invalid_reg_def
      handler_defs split: handler_splits)

lemma failing_handlers_stack:
  assumes "status c = CPU_OK"
  shows "load c = Some c' \<Longrightarrow> status c' \<noteq> CPU_OK \<Longrightarrow>
      \<exists>v. mem_read c (sint (instruction_index c + 1)) = Some v
        \<and> c' = stopped c (if invalid_reg v then 1 else 2) (status c')"
    and "store c = Some c' \<Longrightarrow> status c' \<noteq> CPU_OK \<Longrightarrow>
      \<exists>v. mem_read c (sint (instruction_index c + 1)) = Some v
        \<and> c' = stopped c (if invalid_reg v then 1 else 2) (status c')"
  using assms
  by (auto simp add: load_def store_def mem_read_def mem_write_def
      dest: init_reg_target_address_fails split: handler_splits)

lemma nat_cases19:
  assumes "(n :: nat) < 19"
  shows "n \<in> set [0, 1, 2, 3, 4, 5, 6, 7, 8, 9, 10, 11, 12, 13, 14, 15, 16, 17, 18]"
  using assms by (simp add: less_Suc_eq eval_nat_numeral)

lemma opcode_cases:
  assumes "0 \<le> sint (w :: int32)" "sint w \<le> 18"
  shows "w \<in> set [0, 1, 2, 3, 4, 5, 6, 7, 8, 9, 10, 11, 12, 13, 14, 15, 16, 17, 18]"
proof -
  from assms have "nat (sint w) < 19"
    by simp
  then have n: "nat (sint w) \<in> set [0, 1, 2, 3, 4, 5, 6, 7, 8, 9, 10, 11, 12, 13, 14, 15, 16, 17, 18]"
    by (rule nat_cases19)
  from assms have w: "w = of_nat (nat (sint w))"
    by simp
  show ?thesis
    using n by (subst w) (auto simp del: of_nat_nat)
qed

text \<open>The same for a whole step: when a call of \<open>cpu_step\<close> made with status \<open>CPU_OK\<close> ends
  with another status, it returns 0 and the old state with the new status and the
  instruction index moved by the operand cells read.\<close>

lemma failing_step:
  assumes ok: "status c = CPU_OK" and st: "cpu_step io c = Some (c', r)"
    and fail: "status c' \<noteq> CPU_OK"
  shows "r = 0 \<and> c' = stopped c (operands_read c) (status c')"
proof (cases "sint (instruction_index c) < 0 \<or> stack_top c - 1 < sint (instruction_index c)")
  case True
  with ok st show ?thesis
    by (auto simp add: cpu_step_def operands_read_def stopped_def)
next
  case False
  with ok st obtain opcode where rd: "mem_read c (sint (instruction_index c)) = Some opcode"
    by (auto simp add: cpu_step_def Let_def split: option.splits)
  show ?thesis
  proof (cases "sint opcode < 0 \<or> sint opcode > 18")
    case True
    with ok st False rd have "r = 0 \<and> c' = c\<lparr>status := CPU_ILLEGAL_INSTRUCTION\<rparr>"
      by (auto simp add: cpu_step_def)
    moreover from True have "operands_read c = 0"
      using False rd by (auto simp add: operands_read_def one_reg_opcodes_def)
    ultimately show ?thesis
      by (simp add: stopped_def)
  next
    case inrange: False
    from ok st False rd inrange fail
    have h: "(instructions ! nat (sint opcode)) io c = Some c'" and r: "r = 0"
      by (auto simp add: cpu_step_def Let_def split: option.splits if_splits)
    from inrange have "opcode \<in> set [0, 1, 2, 3, 4, 5, 6, 7, 8, 9, 10, 11, 12, 13, 14, 15, 16, 17, 18]"
      by (intro opcode_cases) simp_all
    then consider "opcode = 0 \<or> opcode = 8" | "opcode = 1" | "opcode = 16"
      | "opcode = 10 \<or> opcode = 11" | "opcode \<in> set one_reg_opcodes" "opcode \<noteq> 10" "opcode \<noteq> 11"
      by (auto simp add: one_reg_opcodes_def)
    then have "c' = stopped c (operands_read c) (status c')"
    proof cases
      case 1
      with h ok fail show ?thesis
        by (auto simp add: instructions_def dest: failing_handlers(1,2))
    next
      case 2
      with h ok have "c' = stopped c 0 (status c')"
        by (auto simp add: instructions_def dest: failing_handlers(3))
      moreover from 2 False rd have "operands_read c = 0"
        by (simp add: operands_read_def one_reg_opcodes_def)
      ultimately show ?thesis by simp
    next
      case 3
      with h ok fail have "c' = stopped c 2 (status c')"
        by (auto simp add: instructions_def dest: failing_handlers(15))
      moreover from 3 False rd have "operands_read c = 2"
        by (simp add: operands_read_def)
      ultimately show ?thesis by simp
    next
      case 4
      with h ok fail obtain v where v: "mem_read c (sint (instruction_index c + 1)) = Some v"
        "c' = stopped c (if invalid_reg v then 1 else 2) (status c')"
        by (auto simp add: instructions_def dest: failing_handlers_stack)
      moreover from 4 False rd v(1) have "operands_read c = (if invalid_reg v then 1 else 2)"
        by (auto simp add: operands_read_def)
      ultimately show ?thesis by simp
    next
      case 5
      with h ok fail have "c' = stopped c 1 (status c')"
        by (auto simp add: instructions_def one_reg_opcodes_def
            dest: failing_handlers(4-14) failing_handlers_input)
      moreover from 5 False rd have "operands_read c = 1"
        by (auto simp add: operands_read_def one_reg_opcodes_def)
      ultimately show ?thesis by simp
    qed
    with r show ?thesis by simp
  qed
qed

text \<open>The failures of the handlers, one by one, with the state each of them leaves.\<close>

lemma invalid_register_stops:
  assumes "executes c opcode" "opcode \<in> set one_reg_opcodes" "operand c 1 v" "invalid_reg v"
  shows "cpu_step io c = Some (stopped c 1 CPU_ILLEGAL_OPERAND, 0)"
proof -
  from assms(2) have "opcode = 2 \<or> opcode = 3 \<or> opcode = 4 \<or> opcode = 5 \<or> opcode = 6
      \<or> opcode = 7 \<or> opcode = 9 \<or> opcode = 10 \<or> opcode = 11 \<or> opcode = 12 \<or> opcode = 13
      \<or> opcode = 14 \<or> opcode = 15 \<or> opcode = 17 \<or> opcode = 18"
    by (simp add: one_reg_opcodes_def)
  moreover from assms(4) have "reg_is_valid c1 v = (False, c1\<lparr>status := CPU_ILLEGAL_OPERAND\<rparr>)"
    for c1
    by (auto simp add: reg_is_valid_def invalid_reg_def)
  ultimately show ?thesis
    using assms(1,3)
    by (elim disjE)
      (simp_all add: cpu_step_executes instructions_def next_cell_operand stopped_def
        add_def sub_def mul_def div_reg_def inc_def dec_def movr_def load_def store_def
        init_reg_target_address_def in_reg_def get_def out_def put_def push_def pop_def)
qed

lemma swap_invalid_stops:
  assumes "executes c 16" "operand c 1 v" "operand c 2 w" "invalid_reg v \<or> invalid_reg w"
  shows "cpu_step io c = Some (stopped c 2 CPU_ILLEGAL_OPERAND, 0)"
  using assms
  by (auto simp add: cpu_step_executes instructions_def next_cell_operand next_cell_operand2
      stopped_def swap_def reg_is_valid_def invalid_reg_def)

lemma div_zero_stops:
  assumes "executes c 5" "operand c 1 (reg_code r)" "registers c r = 0"
  shows "cpu_step io c = Some (stopped c 1 CPU_DIV_BY_ZERO, 0)"
  using assms
  by (simp add: cpu_step_executes instructions_def next_cell_operand stopped_def div_reg_def)

lemma push_full_stops:
  assumes "executes c 17" "operand c 1 (reg_code r)" "stack_bottom c = Some sb"
    "sint (stack_size c) = sb - stack_top c + 1"
  shows "cpu_step io c = Some (stopped c 1 CPU_INVALID_STACK_OPERATION, 0)"
  using assms
  by (simp add: cpu_step_executes instructions_def next_cell_operand stopped_def push_def)

lemma pop_empty_stops:
  assumes "executes c 18" "operand c 1 (reg_code r)" "sint (stack_size c) \<le> 0"
  shows "cpu_step io c = Some (stopped c 1 CPU_INVALID_STACK_OPERATION, 0)"
  using assms
  by (simp add: cpu_step_executes instructions_def next_cell_operand stopped_def pop_def)

lemma address_outside_stops:
  assumes "executes c opcode" "opcode = 10 \<or> opcode = 11" "operand c 1 (reg_code r)"
    "operand c 2 num" "stack_bottom c = Some sb"
    "target_cell c sb num < sb - sint (stack_size c) + 1 \<or> sb < target_cell c sb num"
  shows "cpu_step io c = Some (stopped c 2 CPU_INVALID_STACK_OPERATION, 0)"
  using assms
  by (auto simp add: cpu_step_executes instructions_def next_cell_operand next_cell_operand2
      stopped_def load_def store_def init_reg_target_address_def in_stack_def target_cell_def)

lemma put_range_stops:
  assumes "executes c 15" "operand c 1 (reg_code r)"
    "sint (registers c r) < 0 \<or> 255 < sint (registers c r)"
  shows "cpu_step io c = Some (stopped c 1 CPU_ILLEGAL_OPERAND, 0)"
  using assms
  by (auto simp add: cpu_step_executes instructions_def next_cell_operand stopped_def put_def)

lemma in_malformed_stops:
  assumes "executes c 12" "operand c 1 (reg_code r)" "scanf_reply io = Scanf_0"
  shows "cpu_step io c = Some (stopped c 1 CPU_IO_ERROR, 0)"
  using assms
  by (simp add: cpu_step_executes instructions_def next_cell_operand stopped_def in_reg_def)

text \<open>A failing \<^verbatim>\<open>put A\<close> (A holds 300) has read its operand, cell 1, and leaves the
  instruction index on that cell: the index has not moved past the operand it read.\<close>

theorem failing_instruction_ip_counterexample:
  "executes put_machine 15 \<and>
   operand put_machine 1 (reg_code REGISTER_A) \<and>
   sint (registers put_machine REGISTER_A) = 300 \<and>
   sint (instruction_index put_machine + 1) = 1 \<and>
   cpu_step no_input put_machine = Some (stopped put_machine 1 CPU_ILLEGAL_OPERAND, 0) \<and>
   sint (instruction_index (stopped put_machine 1 CPU_ILLEGAL_OPERAND)) = 1 \<and>
   \<not> sint (instruction_index put_machine + 1)
       < sint (instruction_index (stopped put_machine 1 CPU_ILLEGAL_OPERAND))"
proof -
  have h: "executes put_machine 15" "operand put_machine 1 (reg_code REGISTER_A)"
    "sint (registers put_machine REGISTER_A) = 300"
    "sint (instruction_index put_machine + 1) = 1"
    by (simp_all add: put_machine_def test_machine_def executes_def operand_def mem_read_def
        reg_code_def)
  from h(3) have "sint (registers put_machine REGISTER_A) < 0
      \<or> 255 < sint (registers put_machine REGISTER_A)"
    by simp
  from put_range_stops [OF h(1,2) this]
  have "cpu_step no_input put_machine = Some (stopped put_machine 1 CPU_ILLEGAL_OPERAND, 0)" .
  with h show ?thesis
    by (simp add: stopped_fields)
qed

text \<open>
  Claim C10, as the code has it. Whenever a step started with status \<open>CPU_OK\<close> ends with
  another status, it returns 0, and the registers, every memory cell and \<open>stack_size\<close>
  are as before: the new state is the old one with the new status and the instruction
  index moved by the number of operand cells read, so that it rests on the last operand
  read (on the opcode when none was read), not past it. The failures of the handlers and
  the states they leave are:
  \<^item> a register operand that is not 0..3: \<open>CPU_ILLEGAL_OPERAND\<close>, index + 1 (+ 2 for \<open>swap\<close>,
    which reads both operands first);
  \<^item> \<open>div\<close> by a register holding 0: \<open>CPU_DIV_BY_ZERO\<close>, index + 1;
  \<^item> \<open>push\<close> on a full stack and \<open>pop\<close> on an empty one: \<open>CPU_INVALID_STACK_OPERATION\<close>,
    index + 1;
  \<^item> a \<open>load\<close> or \<open>store\<close> address outside the live stack window:
    \<open>CPU_INVALID_STACK_OPERATION\<close>, index + 2;
  \<^item> \<open>put\<close> of a value outside 0..255: \<open>CPU_ILLEGAL_OPERAND\<close>, index + 1;
  \<^item> a malformed token for \<open>in\<close>: \<open>CPU_IO_ERROR\<close>, index + 1.
\<close>

theorem failing_instruction_state:
  "(status c = CPU_OK \<and> cpu_step io c = Some (c', n) \<and> status c' \<noteq> CPU_OK \<longrightarrow>
      n = 0 \<and> c' = stopped c (operands_read c) (status c')
      \<and> registers c' = registers c \<and> memory c' = memory c \<and> stack_size c' = stack_size c)
   \<and> (executes c opcode \<and> opcode \<in> set one_reg_opcodes \<and> operand c 1 v \<and> invalid_reg v \<longrightarrow>
      cpu_step io c = Some (stopped c 1 CPU_ILLEGAL_OPERAND, 0))
   \<and> (executes c 16 \<and> operand c 1 v \<and> operand c 2 w \<and> (invalid_reg v \<or> invalid_reg w) \<longrightarrow>
      cpu_step io c = Some (stopped c 2 CPU_ILLEGAL_OPERAND, 0))
   \<and> (executes c 5 \<and> operand c 1 (reg_code r) \<and> registers c r = 0 \<longrightarrow>
      cpu_step io c = Some (stopped c 1 CPU_DIV_BY_ZERO, 0))
   \<and> (executes c 17 \<and> operand c 1 (reg_code r) \<and> stack_bottom c = Some sb
        \<and> sint (stack_size c) = sb - stack_top c + 1 \<longrightarrow>
      cpu_step io c = Some (stopped c 1 CPU_INVALID_STACK_OPERATION, 0))
   \<and> (executes c 18 \<and> operand c 1 (reg_code r) \<and> sint (stack_size c) \<le> 0 \<longrightarrow>
      cpu_step io c = Some (stopped c 1 CPU_INVALID_STACK_OPERATION, 0))
   \<and> (executes c opcode \<and> (opcode = 10 \<or> opcode = 11) \<and> operand c 1 (reg_code r)
        \<and> operand c 2 num \<and> stack_bottom c = Some sb
        \<and> (target_cell c sb num < sb - sint (stack_size c) + 1 \<or> sb < target_cell c sb num) \<longrightarrow>
      cpu_step io c = Some (stopped c 2 CPU_INVALID_STACK_OPERATION, 0))
   \<and> (executes c 15 \<and> operand c 1 (reg_code r)
        \<and> (sint (registers c r) < 0 \<or> 255 < sint (registers c r)) \<longrightarrow>
      cpu_step io c = Some (stopped c 1 CPU_ILLEGAL_OPERAND, 0))
   \<and> (executes c 12 \<and> operand c 1 (reg_code r) \<and> scanf_reply io = Scanf_0 \<longrightarrow>
      cpu_step io c = Some (stopped c 1 CPU_IO_ERROR, 0))"
proof -
  have frame: "n = 0 \<and> c' = stopped c (operands_read c) (status c')
      \<and> registers c' = registers c \<and> memory c' = memory c \<and> stack_size c' = stack_size c"
    if "status c = CPU_OK \<and> cpu_step io c = Some (c', n) \<and> status c' \<noteq> CPU_OK"
  proof -
    from that have e: "n = 0 \<and> c' = stopped c (operands_read c) (status c')"
      using failing_step [of c io c' n] by simp
    then obtain k s where "c' = stopped c k s"
      by blast
    then have "registers c' = registers c \<and> memory c' = memory c
        \<and> stack_size c' = stack_size c"
      by (simp add: stopped_fields)
    with e show ?thesis
      by simp
  qed
  have reg: "cpu_step io c = Some (stopped c 1 CPU_ILLEGAL_OPERAND, 0)"
    if "executes c opcode \<and> opcode \<in> set one_reg_opcodes \<and> operand c 1 v \<and> invalid_reg v"
    using that invalid_register_stops [of c opcode v io] by simp
  have swp: "cpu_step io c = Some (stopped c 2 CPU_ILLEGAL_OPERAND, 0)"
    if "executes c 16 \<and> operand c 1 v \<and> operand c 2 w \<and> (invalid_reg v \<or> invalid_reg w)"
    using that swap_invalid_stops [of c v w io] by simp
  have dvz: "cpu_step io c = Some (stopped c 1 CPU_DIV_BY_ZERO, 0)"
    if "executes c 5 \<and> operand c 1 (reg_code r) \<and> registers c r = 0"
    using that div_zero_stops [of c r io] by simp
  have psh: "cpu_step io c = Some (stopped c 1 CPU_INVALID_STACK_OPERATION, 0)"
    if "executes c 17 \<and> operand c 1 (reg_code r) \<and> stack_bottom c = Some sb
        \<and> sint (stack_size c) = sb - stack_top c + 1"
    using that push_full_stops [of c r sb io] by simp
  have pp: "cpu_step io c = Some (stopped c 1 CPU_INVALID_STACK_OPERATION, 0)"
    if "executes c 18 \<and> operand c 1 (reg_code r) \<and> sint (stack_size c) \<le> 0"
    using that pop_empty_stops [of c r io] by simp
  have adr: "cpu_step io c = Some (stopped c 2 CPU_INVALID_STACK_OPERATION, 0)"
    if "executes c opcode \<and> (opcode = 10 \<or> opcode = 11) \<and> operand c 1 (reg_code r)
        \<and> operand c 2 num \<and> stack_bottom c = Some sb
        \<and> (target_cell c sb num < sb - sint (stack_size c) + 1 \<or> sb < target_cell c sb num)"
    using that address_outside_stops [of c opcode r num sb io] by simp
  have pt: "cpu_step io c = Some (stopped c 1 CPU_ILLEGAL_OPERAND, 0)"
    if "executes c 15 \<and> operand c 1 (reg_code r)
        \<and> (sint (registers c r) < 0 \<or> 255 < sint (registers c r))"
    using that put_range_stops [of c r io] by simp
  have inp: "cpu_step io c = Some (stopped c 1 CPU_IO_ERROR, 0)"
    if "executes c 12 \<and> operand c 1 (reg_code r) \<and> scanf_reply io = Scanf_0"
    using that in_malformed_stops [of c r io] by simp
  show ?thesis
    by (intro conjI impI; (rule reg swp dvz psh pp adr pt inp, assumption)?)
      (use frame in blast)+
qed

theorem failing_instruction_state_witness:
  "status put_machine = CPU_OK \<and>
   cpu_step no_input put_machine = Some (stopped put_machine 1 CPU_ILLEGAL_OPERAND, 0) \<and>
   stopped put_machine 1 CPU_ILLEGAL_OPERAND
     = stopped put_machine (operands_read put_machine) CPU_ILLEGAL_OPERAND \<and>
   registers (stopped put_machine 1 CPU_ILLEGAL_OPERAND) = registers put_machine \<and>
   executes (test_machine [2, 7] 2) 2 \<and> invalid_reg 7 \<and>
   cpu_step no_input (test_machine [2, 7] 2)
     = Some (stopped (test_machine [2, 7] 2) 1 CPU_ILLEGAL_OPERAND, 0) \<and>
   executes (test_machine [16, 0, 9] 2) 16 \<and> invalid_reg 9 \<and>
   cpu_step no_input (test_machine [16, 0, 9] 2)
     = Some (stopped (test_machine [16, 0, 9] 2) 2 CPU_ILLEGAL_OPERAND, 0) \<and>
   executes (test_machine [5, 1] 2) 5 \<and>
   cpu_step no_input (test_machine [5, 1] 2)
     = Some (stopped (test_machine [5, 1] 2) 1 CPU_DIV_BY_ZERO, 0) \<and>
   executes ((test_machine [17, 0] 1)\<lparr>stack_size := 1\<rparr>) 17 \<and>
   cpu_step no_input ((test_machine [17, 0] 1)\<lparr>stack_size := 1\<rparr>)
     = Some (stopped ((test_machine [17, 0] 1)\<lparr>stack_size := 1\<rparr>) 1
               CPU_INVALID_STACK_OPERATION, 0) \<and>
   executes (test_machine [18, 1] 2) 18 \<and>
   cpu_step no_input (test_machine [18, 1] 2)
     = Some (stopped (test_machine [18, 1] 2) 1 CPU_INVALID_STACK_OPERATION, 0) \<and>
   executes (test_machine [10, 0, 0] 2) 10 \<and>
   cpu_step no_input (test_machine [10, 0, 0] 2)
     = Some (stopped (test_machine [10, 0, 0] 2) 2 CPU_INVALID_STACK_OPERATION, 0) \<and>
   executes (test_machine [12, 0] 2) 12 \<and>
   cpu_step malformed_input (test_machine [12, 0] 2)
     = Some (stopped (test_machine [12, 0] 2) 1 CPU_IO_ERROR, 0)"
proof -
  let ?a = "test_machine [2, 7] 2" and ?s = "test_machine [16, 0, 9] 2"
  let ?d = "test_machine [5, 1] 2" and ?f = "(test_machine [17, 0] 1)\<lparr>stack_size := 1\<rparr>"
  let ?e = "test_machine [18, 1] 2" and ?l = "test_machine [10, 0, 0] 2"
  let ?i = "test_machine [12, 0] 2"
  note defs = put_machine_def test_machine_def executes_def operand_def mem_read_def
    reg_code_def invalid_reg_def one_reg_opcodes_def target_cell_def malformed_input_def
  note T = failing_instruction_state
  have p: "executes put_machine 15 \<and> operand put_machine 1 (reg_code REGISTER_A)
      \<and> (sint (registers put_machine REGISTER_A) < 0
            \<or> 255 < sint (registers put_machine REGISTER_A))"
    by (simp add: defs)
  with T [where c = put_machine and r = REGISTER_A and io = no_input]
  have p1: "cpu_step no_input put_machine = Some (stopped put_machine 1 CPU_ILLEGAL_OPERAND, 0)"
    by blast
  have p0: "status put_machine = CPU_OK"
    "status (stopped put_machine 1 CPU_ILLEGAL_OPERAND) \<noteq> CPU_OK"
    by (simp_all add: defs stopped_fields)
  with p1 T [where c = put_machine and io = no_input
      and c' = "stopped put_machine 1 CPU_ILLEGAL_OPERAND" and n = 0]
  have p2: "stopped put_machine 1 CPU_ILLEGAL_OPERAND
      = stopped put_machine (operands_read put_machine)
          (status (stopped put_machine 1 CPU_ILLEGAL_OPERAND))
    \<and> registers (stopped put_machine 1 CPU_ILLEGAL_OPERAND) = registers put_machine"
    by blast
  have a: "executes ?a 2 \<and> 2 \<in> set one_reg_opcodes \<and> operand ?a 1 7 \<and> invalid_reg 7"
    by (simp add: defs)
  with T [where c = ?a and opcode = 2 and v = 7 and io = no_input]
  have a1: "cpu_step no_input ?a = Some (stopped ?a 1 CPU_ILLEGAL_OPERAND, 0)"
    by blast
  have s: "executes ?s 16 \<and> operand ?s 1 0 \<and> operand ?s 2 9 \<and> (invalid_reg 0 \<or> invalid_reg 9)"
    by (simp add: defs)
  with T [where c = ?s and v = 0 and w = 9 and io = no_input]
  have s1: "cpu_step no_input ?s = Some (stopped ?s 2 CPU_ILLEGAL_OPERAND, 0)"
    by blast
  have d: "executes ?d 5 \<and> operand ?d 1 (reg_code REGISTER_B) \<and> registers ?d REGISTER_B = 0"
    by (simp add: defs)
  with T [where c = ?d and r = REGISTER_B and io = no_input]
  have d1: "cpu_step no_input ?d = Some (stopped ?d 1 CPU_DIV_BY_ZERO, 0)"
    by blast
  have f: "executes ?f 17 \<and> operand ?f 1 (reg_code REGISTER_A) \<and> stack_bottom ?f = Some 2
      \<and> sint (stack_size ?f) = 2 - stack_top ?f + 1"
    by (simp add: defs)
  with T [where c = ?f and r = REGISTER_A and sb = 2 and io = no_input]
  have f1: "cpu_step no_input ?f = Some (stopped ?f 1 CPU_INVALID_STACK_OPERATION, 0)"
    by blast
  have e: "executes ?e 18 \<and> operand ?e 1 (reg_code REGISTER_B) \<and> sint (stack_size ?e) \<le> 0"
    by (simp add: defs)
  with T [where c = ?e and r = REGISTER_B and io = no_input]
  have e1: "cpu_step no_input ?e = Some (stopped ?e 1 CPU_INVALID_STACK_OPERATION, 0)"
    by blast
  have l: "executes ?l 10 \<and> ((10 :: int32) = 10 \<or> (10 :: int32) = 11)
      \<and> operand ?l 1 (reg_code REGISTER_A) \<and> operand ?l 2 0 \<and> stack_bottom ?l = Some 4
      \<and> (target_cell ?l 4 0 < 4 - sint (stack_size ?l) + 1 \<or> 4 < target_cell ?l 4 0)"
    by (simp add: defs)
  with T [where c = ?l and opcode = 10 and r = REGISTER_A and num = 0 and sb = 4
      and io = no_input]
  have l1: "cpu_step no_input ?l = Some (stopped ?l 2 CPU_INVALID_STACK_OPERATION, 0)"
    by blast
  have i: "executes ?i 12 \<and> operand ?i 1 (reg_code REGISTER_A)
      \<and> scanf_reply malformed_input = Scanf_0"
    by (simp add: defs)
  with T [where c = ?i and r = REGISTER_A and io = malformed_input]
  have i1: "cpu_step malformed_input ?i = Some (stopped ?i 1 CPU_IO_ERROR, 0)"
    by blast
  note p3 = p2 [unfolded stopped_fields(7)]
  have v: "invalid_reg 7" "invalid_reg 9"
    by (simp_all add: invalid_reg_def)
  from p0(1) p1 p3 a a1 s s1 d d1 f f1 e e1 l l1 i i1 v show ?thesis
    by blast
qed

subsection \<open>Push followed by pop\<close>

lemma sint_plus1: "sint (x :: int32) < 2 ^ 31 - 1 \<Longrightarrow> sint (x + 1) = sint x + 1"
  using sint_ge [of x] by (simp add: sint_word_ariths signed_take_bit_int_eq_self)

lemma sint_word_of_int32:
  "- (2 ^ 31) \<le> i \<Longrightarrow> i < 2 ^ 31 \<Longrightarrow> sint (word_of_int i :: int32) = i"
  by (simp add: signed_of_int signed_take_bit_int_eq_self)

lemma push_ok:
  assumes ex: "executes c 17" and op: "operand c 1 (reg_code r)"
    and sb: "stack_bottom c = Some sb" "sb < int (length (memory c))"
    and sz: "0 \<le> sint (stack_size c)" "sint (stack_size c) < sb - stack_top c + 1"
  shows "cpu_step io c =
    Some (c\<lparr>memory := (memory c)[nat (sb - sint (stack_size c)) := registers c r],
            stack_size := stack_size c + 1, instruction_index := instruction_index c + 2\<rparr>, 1)"
proof -
  from ex have "0 < stack_top c" "status c = CPU_OK"
    by (auto simp add: executes_def)
  with sb sz have "0 \<le> sb - sint (stack_size c)"
    "sb - sint (stack_size c) < int (length (memory c))"
    by simp_all
  with ex op sb sz show ?thesis
    by (simp add: cpu_step_executes instructions_nth push_def next_cell_operand mem_write_def
        executes_def)
qed

lemma pop_ok:
  assumes ex: "executes c 18" and op: "operand c 1 (reg_code r)"
    and sb: "stack_bottom c = Some sb" "sb < int (length (memory c))" "sb < 2 ^ 31"
    and sz: "0 < sint (stack_size c)" "sint (stack_size c) \<le> sb + 1"
  shows "cpu_step io c =
    Some (c\<lparr>stack_size := stack_size c - 1,
            registers := (registers c)(r := memory c ! nat (sb - sint (stack_size c) + 1)),
            memory := (memory c)[nat (sb - sint (stack_size c) + 1) := 0],
            instruction_index := instruction_index c + 2\<rparr>, 1)"
proof -
  have m1: "sint (stack_size c - 1) = sint (stack_size c) - 1"
    using sz sint_lt [of "stack_size c"]
    by (simp add: sint_word_ariths signed_take_bit_int_eq_self)
  have "sint (word_of_int (sb - (sint (stack_size c) - 1)) :: int32)
      = sb - (sint (stack_size c) - 1)"
    using sb sz by (intro sint_word_of_int32) simp_all
  then have idx: "sint (word_of_int (sb - sint (stack_size c - 1)) :: int32)
      = sb - sint (stack_size c) + 1"
    unfolding m1 by simp
  from ex have "status c = CPU_OK"
    by (simp add: executes_def)
  with ex op sb sz idx show ?thesis
    by (simp add: cpu_step_executes instructions_nth pop_def next_cell_operand mem_write_def
        mem_read_def Let_def)
qed

text \<open>
  Claim C8. Take a state that executes \<open>push\<close> (opcode 17) on a valid register \<open>r\<close>, with
  \<open>0 \<le> stack_size < capacity\<close> (the capacity is \<open>stack_bottom - stack_top + 1\<close>) and
  \<open>stack_bottom\<close> a cell of the buffer. The step succeeds and \<open>stack_size\<close> grows by one.
  If the state it yields executes \<open>pop\<close> (opcode 18) on a valid register \<open>r'\<close> (another one
  or the same), that step succeeds too, leaves in \<open>r'\<close> the value \<open>r\<close> held before the push,
  and \<open>stack_size\<close> is again what it was before the push.
\<close>

theorem push_pop_roundtrip:
  assumes ex: "executes c 17" and op: "operand c 1 (reg_code r)"
    and sb: "stack_bottom c = Some sb" "sb < int (length (memory c))" "sb < 2 ^ 31"
    and sz: "0 \<le> sint (stack_size c)" "sint (stack_size c) < sb - stack_top c + 1"
  shows "\<exists>c1. cpu_step io c = Some (c1, 1) \<and> stack_size c1 = stack_size c + 1 \<and>
     (\<forall>io' r'. executes c1 18 \<and> operand c1 1 (reg_code r') \<longrightarrow>
        (\<exists>c2. cpu_step io' c1 = Some (c2, 1) \<and> registers c2 r' = registers c r
           \<and> stack_size c2 = stack_size c))"
proof -
  let ?c1 = "c\<lparr>memory := (memory c)[nat (sb - sint (stack_size c)) := registers c r],
            stack_size := stack_size c + 1, instruction_index := instruction_index c + 2\<rparr>"
  have 1: "cpu_step io c = Some (?c1, 1)"
    using push_ok [OF ex op sb(1,2) sz] .
  from ex have top: "0 < stack_top c"
    by (auto simp add: executes_def)
  with sb sz have lt: "sint (stack_size c) < 2 ^ 31 - 1"
    by simp
  have s1: "sint (stack_size c + 1) = sint (stack_size c) + 1"
    using sint_plus1 [OF lt] .
  have rng: "0 \<le> sb - sint (stack_size c)" "sb - sint (stack_size c) < int (length (memory c))"
    using top sb sz by simp_all
  have "\<exists>c2. cpu_step io' ?c1 = Some (c2, 1) \<and> registers c2 r' = registers c r
           \<and> stack_size c2 = stack_size c"
    if "executes ?c1 18" "operand ?c1 1 (reg_code r')" for io' r'
  proof -
    have "cpu_step io' ?c1 = Some (?c1\<lparr>stack_size := stack_size ?c1 - 1,
            registers := (registers ?c1)(r' := memory ?c1 ! nat (sb - sint (stack_size ?c1) + 1)),
            memory := (memory ?c1)[nat (sb - sint (stack_size ?c1) + 1) := 0],
            instruction_index := instruction_index ?c1 + 2\<rparr>, 1)"
      using sb sz s1 top by (intro pop_ok [OF that, of sb]) simp_all
    then show ?thesis
      using rng by (simp add: s1)
  qed
  with 1 show ?thesis by auto
qed

theorem push_pop_roundtrip_witness:
  "executes push_pop_machine 17 \<and> operand push_pop_machine 1 (reg_code REGISTER_A) \<and>
   stack_bottom push_pop_machine = Some 6 \<and> 6 < int (length (memory push_pop_machine)) \<and>
   0 \<le> sint (stack_size push_pop_machine) \<and>
   sint (stack_size push_pop_machine) < 6 - stack_top push_pop_machine + 1 \<and>
   registers push_pop_machine REGISTER_A = 7 \<and>
   cpu_step no_input push_pop_machine =
     Some (push_pop_machine\<lparr>memory := [17, 0, 18, 1, 1, 0, 7], stack_size := 1,
             instruction_index := 2\<rparr>, 1) \<and>
   executes (push_pop_machine\<lparr>memory := [17, 0, 18, 1, 1, 0, 7], stack_size := 1,
             instruction_index := 2\<rparr>) 18 \<and>
   operand (push_pop_machine\<lparr>memory := [17, 0, 18, 1, 1, 0, 7], stack_size := 1,
             instruction_index := 2\<rparr>) 1 (reg_code REGISTER_B) \<and>
   (\<exists>c2. cpu_step no_input
           (push_pop_machine\<lparr>memory := [17, 0, 18, 1, 1, 0, 7], stack_size := 1,
              instruction_index := 2\<rparr>) = Some (c2, 1)
      \<and> registers c2 REGISTER_B = 7 \<and> stack_size c2 = 0)"
proof -
  let ?c1 = "push_pop_machine\<lparr>memory := [17, 0, 18, 1, 1, 0, 7], stack_size := 1,
             instruction_index := 2\<rparr>"
  have h: "executes push_pop_machine 17" "operand push_pop_machine 1 (reg_code REGISTER_A)"
    "stack_bottom push_pop_machine = Some 6" "6 < int (length (memory push_pop_machine))"
    "(6 :: int) < 2 ^ 31"
    "0 \<le> sint (stack_size push_pop_machine)"
    "sint (stack_size push_pop_machine) < 6 - stack_top push_pop_machine + 1"
    by (simp_all add: push_pop_machine_def test_machine_def executes_def operand_def
        mem_read_def reg_code_def)
  have v: "registers push_pop_machine REGISTER_A = 7" "stack_size push_pop_machine = 0"
    by (simp_all add: push_pop_machine_def test_machine_def)
  have 1: "cpu_step no_input push_pop_machine = Some (?c1, 1)"
    by (simp add: push_pop_machine_def test_machine_def cpu_step_def instructions_def push_def
        handler_defs reg_index_def numeral_2_eq_2)
  have p: "executes ?c1 18" "operand ?c1 1 (reg_code REGISTER_B)"
    by (simp_all add: push_pop_machine_def test_machine_def executes_def operand_def
        mem_read_def reg_code_def)
  from push_pop_roundtrip [OF h, of no_input] 1 p
  have "\<exists>c2. cpu_step no_input ?c1 = Some (c2, 1)
      \<and> registers c2 REGISTER_B = registers push_pop_machine REGISTER_A
      \<and> stack_size c2 = stack_size push_pop_machine"
    by auto
  with h v 1 p show ?thesis
    by simp
qed

subsection \<open>Running up to a budget\<close>










subsection \<open>The instruction index and the code bounds\<close>

lemma loop_machine_loaded: "main_create (\<lambda>_. True) loop_program 256 = Some loop_machine"
proof -
  have rd: "read_program (\<lambda>_. True) loop_program [] BLOCK_SIZE = Some (loop_program, BLOCK_SIZE)"
    by (simp add: loop_program_def BLOCK_SIZE_def)
  have room: "stack_room (\<lambda>_. True) BLOCK_SIZE 16 256 = Some BLOCK_SIZE"
    by (simp add: stack_room_def BLOCK_SIZE_def CELL_SIZE_def)
  have cells: "cells_of loop_program = [6, 2, 8, 1000]"
    by (simp add: loop_program_def cell_of_bytes_def)
  have len: "int (length loop_program) = 16"
    by (simp add: loop_program_def)
  have "cpu_create_memory (\<lambda>_. True) loop_program 256
      = Some ([6, 2, 8, 1000] @ replicate 1020 0, 1023)"
    by (simp add: cpu_create_memory_def rd room cells len Let_def)
      (simp add: CELL_SIZE_def BLOCK_SIZE_def c_quot_def)
  then show ?thesis
    by (simp add: main_create_def cpu_create_def cpu_clear_def loop_machine_def CELL_SIZE_def)
qed

lemma loop_machine_steps:
  "cpu_step io loop_machine =
     Some (loop_machine\<lparr>registers := (\<lambda>_. 0)(REGISTER_C := 1), instruction_index := 2\<rparr>, 1)"
  "cpu_step io (loop_machine\<lparr>registers := (\<lambda>_. 0)(REGISTER_C := 1), instruction_index := 2\<rparr>)
     = Some (loop_jumped, 1)"
  by (simp_all add: loop_machine_def loop_jumped_def cpu_step_def instructions_def inc_def
      loop_def handler_defs reg_index_def)

lemma loop_jumped_reachable: "reachable loop_machine loop_jumped"
  using reachable_step [OF reachable_step [OF reachable_init loop_machine_steps(1)]
      loop_machine_steps(2)] .

text \<open>The machine loaded from \<open>loop_program\<close> reaches, in two steps, a state with status
  \<open>CPU_OK\<close> whose instruction index is 1000, beyond \<open>stack_top\<close> = 768.\<close>

theorem ip_in_code_bounds_counterexample:
  "main_create (\<lambda>_. True) loop_program 256 = Some loop_machine \<and>
   reachable loop_machine loop_jumped \<and>
   status loop_jumped = CPU_OK \<and>
   sint (instruction_index loop_jumped) = 1000 \<and> stack_top loop_jumped = 768 \<and>
   \<not> (0 \<le> sint (instruction_index loop_jumped)
        \<and> sint (instruction_index loop_jumped) < stack_top loop_jumped)"
  using loop_machine_loaded loop_jumped_reachable
  by (simp add: loop_jumped_def loop_machine_def)

text \<open>
  Claim C1, as the code has it. The handlers advance the instruction index, and \<open>loop\<close>
  sets it, without a check; the code bounds are enforced when the next instruction is
  fetched. For every state reachable from an initial state and with status \<open>CPU_OK\<close>, a
  step either finds \<open>0 \<le> instruction_index < stack_top\<close>, or it runs no handler: it sets
  the status to \<open>CPU_INVALID_ADDRESS\<close>, returns 0 and changes nothing else. So every step
  that does not end in \<open>CPU_INVALID_ADDRESS\<close> started within the code bounds.
\<close>

theorem ip_checked_at_fetch:
  assumes "reachable c0 c" and "status c = CPU_OK"
  shows "((0 \<le> sint (instruction_index c) \<and> sint (instruction_index c) < stack_top c)
            \<or> cpu_step io c = Some (c\<lparr>status := CPU_INVALID_ADDRESS\<rparr>, 0))
     \<and> (\<forall>c' r. cpu_step io c = Some (c', r) \<and> status c' \<noteq> CPU_INVALID_ADDRESS \<longrightarrow>
            0 \<le> sint (instruction_index c) \<and> sint (instruction_index c) < stack_top c)"
proof -
  have trap: "cpu_step io c = Some (c\<lparr>status := CPU_INVALID_ADDRESS\<rparr>, 0)"
    if "\<not> (0 \<le> sint (instruction_index c) \<and> sint (instruction_index c) < stack_top c)"
    using that assms(2) by (auto simp add: cpu_step_def Let_def)
  then show ?thesis
    by fastforce
qed

theorem ip_checked_at_fetch_witness:
  "reachable loop_machine loop_jumped \<and> status loop_jumped = CPU_OK \<and>
   \<not> sint (instruction_index loop_jumped) < stack_top loop_jumped \<and>
   cpu_step no_input loop_jumped = Some (loop_jumped\<lparr>status := CPU_INVALID_ADDRESS\<rparr>, 0) \<and>
   reachable loop_machine loop_machine \<and> status loop_machine = CPU_OK \<and>
   cpu_step no_input loop_machine =
     Some (loop_machine\<lparr>registers := (\<lambda>_. 0)(REGISTER_C := 1), instruction_index := 2\<rparr>, 1) \<and>
   0 \<le> sint (instruction_index loop_machine) \<and>
   sint (instruction_index loop_machine) < stack_top loop_machine"
proof -
  have j: "status loop_jumped = CPU_OK"
    "\<not> sint (instruction_index loop_jumped) < stack_top loop_jumped"
    by (simp_all add: loop_jumped_def loop_machine_def)
  have m: "status loop_machine = CPU_OK"
    "status (loop_machine\<lparr>registers := (\<lambda>_. 0)(REGISTER_C := 1), instruction_index := 2\<rparr>)
       \<noteq> CPU_INVALID_ADDRESS"
    by (simp_all add: loop_machine_def)
  from ip_checked_at_fetch [OF loop_jumped_reachable j(1), of no_input] j(2)
  have 1: "cpu_step no_input loop_jumped = Some (loop_jumped\<lparr>status := CPU_INVALID_ADDRESS\<rparr>, 0)"
    by blast
  from ip_checked_at_fetch [OF reachable_init m(1), of no_input] loop_machine_steps(1) [of no_input]
    m(2)
  have 2: "0 \<le> sint (instruction_index loop_machine)
      \<and> sint (instruction_index loop_machine) < stack_top loop_machine"
    by blast
  from j m 1 2 loop_jumped_reachable reachable_init [of loop_machine]
    loop_machine_steps(1) [of no_input]
  show ?thesis
    by blast
qed

subsection \<open>Well-formed machines stay inside the buffer\<close>

text \<open>On a well-formed machine no access of a step leaves the buffer: the step is
  defined and yields a well-formed machine again, unless it is a \<open>div\<close> whose quotient is
  not a 32-bit value, the one step left that has no result.\<close>

lemma wf_cpuD:
  assumes "wf_cpu c"
  obtains sb where "stack_bottom c = Some sb" "int (length (memory c)) = sb + 1" "sb < 2 ^ 31 - 2"
    "0 \<le> stack_top c" "stack_top c < sb" "0 \<le> sint (stack_size c)"
    "sint (stack_size c) \<le> sb - stack_top c + 1"
  using assms by (auto simp add: wf_cpu_def split: option.splits)

lemma wf_cpu_cong:
  "wf_cpu c \<Longrightarrow> stack_bottom c' = stack_bottom c \<Longrightarrow> length (memory c') = length (memory c) \<Longrightarrow>
   stack_top c' = stack_top c \<Longrightarrow> stack_size c' = stack_size c \<Longrightarrow> wf_cpu c'"
  by (auto simp add: wf_cpu_def split: option.splits)

lemma next_cell_defined:
  assumes "wf_cpu c" "- 1 \<le> sint (instruction_index c)" "sint (instruction_index c) \<le> stack_top c"
  shows "\<exists>v. next_cell c = Some (c\<lparr>instruction_index := instruction_index c + 1\<rparr>, v)"
    and "sint (instruction_index c + 1) = sint (instruction_index c) + 1"
proof -
  from assms(1) obtain sb where sb: "stack_bottom c = Some sb" "int (length (memory c)) = sb + 1"
    "sb < 2 ^ 31 - 2" "stack_top c < sb"
    by (rule wf_cpuD)
  with assms have "sint (instruction_index c) < 2 ^ 31 - 1" by simp
  then show s: "sint (instruction_index c + 1) = sint (instruction_index c) + 1"
    by (rule sint_plus1)
  with assms sb show "\<exists>v. next_cell c = Some (c\<lparr>instruction_index := instruction_index c + 1\<rparr>, v)"
    by (simp add: next_cell_def mem_read_def)
qed

lemma one_operand:
  assumes "fetch_ok c"
  obtains v where "next_cell c = Some (c\<lparr>instruction_index := instruction_index c + 1\<rparr>, v)"
  using assms next_cell_defined(1) [of c] by (auto simp add: fetch_ok_def)

lemma two_operands:
  assumes "fetch_ok c"
  obtains v w where "next_cell c = Some (c\<lparr>instruction_index := instruction_index c + 1\<rparr>, v)"
    "next_cell (c\<lparr>instruction_index := instruction_index c + 1\<rparr>)
       = Some (c\<lparr>instruction_index := instruction_index c + 1 + 1\<rparr>, w)"
proof -
  let ?c1 = "c\<lparr>instruction_index := instruction_index c + 1\<rparr>"
  from assms have wf: "wf_cpu c" and ip: "0 \<le> sint (instruction_index c)" "sint (instruction_index c) < stack_top c"
    by (simp_all add: fetch_ok_def)
  from next_cell_defined [OF wf] ip
  obtain v where 1: "next_cell c = Some (?c1, v)" and s: "sint (instruction_index c + 1) = sint (instruction_index c) + 1"
    by auto
  have "wf_cpu ?c1" using wf by (rule wf_cpu_cong) simp_all
  from next_cell_defined(1) [OF this] s ip
  obtain w where "next_cell ?c1 = Some (?c1\<lparr>instruction_index := instruction_index ?c1 + 1\<rparr>, w)"
    by auto
  with 1 that show thesis by simp
qed

lemma wf_simple:
  assumes "fetch_ok c"
  shows "\<exists>c'. nop c = Some c' \<and> wf_cpu c'"
    and "\<exists>c'. halt c = Some c' \<and> wf_cpu c'"
    and "\<exists>c'. add c = Some c' \<and> wf_cpu c'"
    and "\<exists>c'. sub c = Some c' \<and> wf_cpu c'"
    and "\<exists>c'. mul c = Some c' \<and> wf_cpu c'"
    and "\<exists>c'. inc c = Some c' \<and> wf_cpu c'"
    and "\<exists>c'. dec c = Some c' \<and> wf_cpu c'"
    and "\<exists>c'. loop c = Some c' \<and> wf_cpu c'"
    and "\<exists>c'. out c = Some c' \<and> wf_cpu c'"
    and "\<exists>c'. put c = Some c' \<and> wf_cpu c'"
    and "\<exists>c'. in_reg io c = Some c' \<and> wf_cpu c'"
    and "\<exists>c'. get io c = Some c' \<and> wf_cpu c'"
proof -
  from assms have wf: "wf_cpu c" by (simp add: fetch_ok_def)
  from assms obtain v where n: "next_cell c = Some (c\<lparr>instruction_index := instruction_index c + 1\<rparr>, v)"
    by (rule one_operand)
  note defs = nop_def halt_def add_def sub_def mul_def inc_def dec_def loop_def
    out_def put_def in_reg_def get_def handle_eof_def reg_is_valid_def Let_def
  show "\<exists>c'. nop c = Some c' \<and> wf_cpu c'" "\<exists>c'. halt c = Some c' \<and> wf_cpu c'"
    "\<exists>c'. add c = Some c' \<and> wf_cpu c'" "\<exists>c'. sub c = Some c' \<and> wf_cpu c'"
    "\<exists>c'. mul c = Some c' \<and> wf_cpu c'"
    "\<exists>c'. inc c = Some c' \<and> wf_cpu c'" "\<exists>c'. dec c = Some c' \<and> wf_cpu c'"
    "\<exists>c'. loop c = Some c' \<and> wf_cpu c'" "\<exists>c'. out c = Some c' \<and> wf_cpu c'"
    "\<exists>c'. put c = Some c' \<and> wf_cpu c'" "\<exists>c'. in_reg io c = Some c' \<and> wf_cpu c'"
    "\<exists>c'. get io c = Some c' \<and> wf_cpu c'"
    using wf by (auto simp add: defs n intro: wf_cpu_cong split: scanf_result.splits getchar_result.splits)
qed

lemma wf_two:
  assumes "fetch_ok c"
  shows "\<exists>c'. movr c = Some c' \<and> wf_cpu c'"
    and "\<exists>c'. swap c = Some c' \<and> wf_cpu c'"
proof -
  from assms have wf: "wf_cpu c" by (simp add: fetch_ok_def)
  from assms obtain v w where n: "next_cell c = Some (c\<lparr>instruction_index := instruction_index c + 1\<rparr>, v)"
    "next_cell (c\<lparr>instruction_index := instruction_index c + 1\<rparr>)
       = Some (c\<lparr>instruction_index := instruction_index c + 1 + 1\<rparr>, w)"
    by (rule two_operands)
  show "\<exists>c'. movr c = Some c' \<and> wf_cpu c'" "\<exists>c'. swap c = Some c' \<and> wf_cpu c'"
    using wf by (auto simp add: movr_def swap_def reg_is_valid_def Let_def n intro: wf_cpu_cong)
qed


lemma wf_push:
  assumes "fetch_ok c"
  shows "\<exists>c'. push c = Some c' \<and> wf_cpu c'"
proof -
  from assms have wf: "wf_cpu c" by (simp add: fetch_ok_def)
  from assms obtain v where n: "next_cell c = Some (c\<lparr>instruction_index := instruction_index c + 1\<rparr>, v)"
    by (rule one_operand)
  from wf obtain sb where sb: "stack_bottom c = Some sb" "int (length (memory c)) = sb + 1"
    "sb < 2 ^ 31 - 2" "0 \<le> stack_top c" "stack_top c < sb" "0 \<le> sint (stack_size c)"
    "sint (stack_size c) \<le> sb - stack_top c + 1"
    by (rule wf_cpuD)
  have s1: "sint (stack_size c + 1) = sint (stack_size c) + 1"
    using sb by (intro sint_plus1) simp
  show ?thesis
    using wf sb s1
    by (auto simp add: push_def n reg_is_valid_def mem_write_def wf_cpu_def intro: wf_cpu_cong)
qed

lemma wf_pop:
  assumes "fetch_ok c"
  shows "\<exists>c'. pop c = Some c' \<and> wf_cpu c'"
proof -
  from assms have wf: "wf_cpu c" by (simp add: fetch_ok_def)
  from assms obtain v where n: "next_cell c = Some (c\<lparr>instruction_index := instruction_index c + 1\<rparr>, v)"
    by (rule one_operand)
  from wf obtain sb where sb: "stack_bottom c = Some sb" "int (length (memory c)) = sb + 1"
    "sb < 2 ^ 31 - 2" "0 \<le> stack_top c" "stack_top c < sb" "0 \<le> sint (stack_size c)"
    "sint (stack_size c) \<le> sb - stack_top c + 1"
    by (rule wf_cpuD)
  show ?thesis
  proof (cases "sint (stack_size c) \<le> 0")
    case True
    with wf show ?thesis
      by (auto simp add: pop_def n reg_is_valid_def intro: wf_cpu_cong)
  next
    case False
    have m1: "sint (stack_size c - 1) = sint (stack_size c) - 1"
      using False sint_lt [of "stack_size c"]
      by (simp add: sint_word_ariths signed_take_bit_int_eq_self)
    have "sint (word_of_int (sb - (sint (stack_size c) - 1)) :: int32)
        = sb - (sint (stack_size c) - 1)"
      using sb False by (intro sint_word_of_int32) simp_all
    then have idx: "sint (word_of_int (sb - sint (stack_size c - 1)) :: int32)
        = sb - sint (stack_size c) + 1"
      unfolding m1 by simp
    show ?thesis
      using wf sb False m1 idx
      by (auto simp add: pop_def n reg_is_valid_def mem_write_def mem_read_def wf_cpu_def Let_def
          intro: wf_cpu_cong)
  qed
qed

lemma wf_load_store:
  assumes "fetch_ok c"
  shows "\<exists>c'. load c = Some c' \<and> wf_cpu c'"
    and "\<exists>c'. store c = Some c' \<and> wf_cpu c'"
proof -
  from assms have wf: "wf_cpu c" by (simp add: fetch_ok_def)
  from assms obtain v w where n: "next_cell c = Some (c\<lparr>instruction_index := instruction_index c + 1\<rparr>, v)"
    "next_cell (c\<lparr>instruction_index := instruction_index c + 1\<rparr>)
       = Some (c\<lparr>instruction_index := instruction_index c + 1 + 1\<rparr>, w)"
    by (rule two_operands)
  from wf obtain sb where sb: "stack_bottom c = Some sb" "int (length (memory c)) = sb + 1"
    "sb < 2 ^ 31 - 2" "0 \<le> stack_top c" "stack_top c < sb" "0 \<le> sint (stack_size c)"
    "sint (stack_size c) \<le> sb - stack_top c + 1"
    by (rule wf_cpuD)
  show "\<exists>c'. load c = Some c' \<and> wf_cpu c'" "\<exists>c'. store c = Some c' \<and> wf_cpu c'"
    using wf sb
    by (auto simp add: load_def store_def init_reg_target_address_def in_stack_def n
        reg_is_valid_def mem_write_def mem_read_def Let_def intro: wf_cpu_cong)
qed

lemma wf_div_reg:
  assumes "fetch_ok c" "\<not> div_overflow_at c"
  shows "\<exists>c'. div_reg c = Some c' \<and> wf_cpu c'"
proof -
  from assms have wf: "wf_cpu c" by (simp add: fetch_ok_def)
  from assms(1) obtain v where n: "next_cell c = Some (c\<lparr>instruction_index := instruction_index c + 1\<rparr>, v)"
    by (rule one_operand)
  then have rd: "mem_read c (sint (instruction_index c + 1)) = Some v"
    by (auto simp add: next_cell_def mem_read_def Let_def split: if_splits)
  show ?thesis
  proof (cases "0 \<le> sint v \<and> sint v \<le> 3 \<and> registers c (reg_index v) \<noteq> 0")
    case False
    with wf show ?thesis
      by (auto simp add: div_reg_def n reg_is_valid_def intro: wf_cpu_cong)
  next
    case True
    with assms(2) rd
    have "\<not> (sint (registers c REGISTER_A) = - (2 ^ 31) \<and> sint (registers c (reg_index v)) = - 1)"
      by (simp add: div_overflow_at_def)
    with True obtain q where "div32 (registers c REGISTER_A) (registers c (reg_index v)) = Some q"
      using div32_Some [of "registers c (reg_index v)" "registers c REGISTER_A"] by auto
    with True wf show ?thesis
      by (auto simp add: div_reg_def n reg_is_valid_def intro: wf_cpu_cong)
  qed
qed

lemma wf_instruction:
  assumes "n < 19" "fetch_ok c" "n = 5 \<longrightarrow> \<not> div_overflow_at c"
  shows "\<exists>c'. (instructions ! n) io c = Some c' \<and> wf_cpu c'"
  using nat_cases19 [OF assms(1)] assms(3)
    wf_simple [OF assms(2)] wf_two [OF assms(2)] wf_push [OF assms(2)] wf_pop [OF assms(2)]
    wf_load_store [OF assms(2)] wf_div_reg [OF assms(2)]
  by (auto simp add: instructions_def)

lemma wf_cpu_step:
  assumes "wf_cpu c" "\<not> div_overflows c"
  shows "\<exists>c' r. cpu_step io c = Some (c', r) \<and> wf_cpu c'"
proof (cases "status c \<noteq> CPU_OK \<or> sint (instruction_index c) < 0
    \<or> sint (instruction_index c) > stack_top c - 1")
  case True
  with assms show ?thesis
    by (auto simp add: cpu_step_def intro: wf_cpu_cong)
next
  case False
  with assms have f: "fetch_ok c" by (simp add: fetch_ok_def)
  from assms(1) obtain sb where sb: "stack_bottom c = Some sb" "int (length (memory c)) = sb + 1"
    "stack_top c < sb"
    by (auto elim: wf_cpuD)
  with False obtain instruction where rd: "mem_read c (sint (instruction_index c)) = Some instruction"
    by (auto simp add: mem_read_def)
  show ?thesis
  proof (cases "sint instruction < 0 \<or> sint instruction > 18")
    case True
    with False rd assms show ?thesis
      by (auto simp add: cpu_step_def intro: wf_cpu_cong)
  next
    case inrange: False
    then have lt: "nat (sint instruction) < 19"
      by linarith
    have "\<not> div_overflow_at c" if "nat (sint instruction) = 5"
    proof -
      from that have "sint instruction = sint (5 :: int32)"
        by simp
      then have "instruction = 5"
        by (rule signed_word_eqI)
      with False rd have "executes c 5"
        by (simp add: executes_def)
      with assms(2) show ?thesis
        by (simp add: div_overflows_def)
    qed
    then have "nat (sint instruction) = 5 \<longrightarrow> \<not> div_overflow_at c"
      by simp
    from wf_instruction [OF lt f this, of io]
    obtain c' where "(instructions ! nat (sint instruction)) io c = Some c'" "wf_cpu c'"
      by auto
    with False rd inrange show ?thesis
      by (auto simp add: cpu_step_def)
  qed
qed

lemma div_overflows_undefined:
  assumes "div_overflows c"
  shows "cpu_step io c = None"
proof -
  from assms have ex: "executes c 5" and ov: "div_overflow_at c"
    by (simp_all add: div_overflows_def)
  from ov obtain v where v: "operand c 1 v" "0 \<le> sint v" "sint v \<le> 3"
    "sint (registers c REGISTER_A) = - (2 ^ 31)" "sint (registers c (reg_index v)) = - 1"
    by (auto simp add: div_overflow_at_def operand_def split: option.splits)
  from v(5) have nz: "registers c (reg_index v) \<noteq> 0"
    by auto
  from v(4,5) have "div32 (registers c REGISTER_A) (registers c (reg_index v)) = None"
    by (rule div32_None)
  with ex v(1,2,3) nz show ?thesis
    by (simp add: cpu_step_executes instructions_nth div_reg_def next_cell_operand
        reg_is_valid_def)
qed

lemma wf_steps_from:
  assumes "wf_cpu c"
    and "\<forall>j<k. \<forall>cj. steps_from ios j c = Some cj \<longrightarrow> \<not> div_overflows cj"
  shows "\<exists>c'. steps_from ios k c = Some c' \<and> wf_cpu c'"
  using assms(2)
proof (induction k)
  case 0
  with assms(1) show ?case by simp
next
  case (Suc k)
  have "\<forall>j<k. \<forall>cj. steps_from ios j c = Some cj \<longrightarrow> \<not> div_overflows cj"
    using Suc.prems less_SucI by blast
  with Suc.IH obtain ck where ck: "steps_from ios k c = Some ck" "wf_cpu ck"
    by blast
  with Suc.prems have "\<not> div_overflows ck"
    by blast
  from wf_cpu_step [OF ck(2) this, of "ios k"] ck(1) show ?case
    by auto
qed

lemma wf_test_machine:
  "2 \<le> cap \<Longrightarrow> int (length cells) + int cap < 2 ^ 31 - 1 \<Longrightarrow> wf_cpu (test_machine cells cap)"
  by (simp add: wf_cpu_def test_machine_def)

lemma wf_loop_machine: "wf_cpu loop_machine"
  by (simp add: wf_cpu_def loop_machine_def)

end
